theory Spec2Isabelle
  imports Complex_Main "HOL-Library.Log_Nat"
begin

section \<open>Seven-segment decoding (hook \<open>useOpenCV\<close>)\<close>

subsection \<open>Data model\<close>

text \<open>
  \<^verbatim>\<open>interface SegmentState { a: boolean; ...; g: boolean }\<close>. The one-letter field
  names of the source are prefixed with \<open>seg_\<close>: as record selectors they would
  otherwise capture every variable called \<open>a\<close>, \<open>f\<close>, ...
\<close>

record SegmentState =
  seg_a :: bool
  seg_b :: bool
  seg_c :: bool
  seg_d :: bool
  seg_e :: bool
  seg_f :: bool
  seg_g :: bool

text \<open>The literal \<^verbatim>\<open>{ a: false, b: false, ..., g: false }\<close> returned on every guard.\<close>

definition allOff :: SegmentState where
  "allOff = \<lparr>seg_a = False, seg_b = False, seg_c = False, seg_d = False,
             seg_e = False, seg_f = False, seg_g = False\<rparr>"

text \<open>\<^verbatim>\<open>Object.values(segments)\<close>: the seven flags in declaration order.\<close>

definition segValues :: "SegmentState \<Rightarrow> bool list" where
  "segValues s = [seg_a s, seg_b s, seg_c s, seg_d s, seg_e s, seg_f s, seg_g s]"

text \<open>\<^verbatim>\<open>Object.values(segments).filter(Boolean).length\<close>\<close>

definition activeSegments :: "SegmentState \<Rightarrow> nat" where
  "activeSegments s = length (filter (\<lambda>v. v) (segValues s))"

subsection \<open>\<open>segmentsToDigit\<close>\<close>

text \<open>The object literal \<open>digitPatterns\<close>, as the association list of its own keys.\<close>

definition digitPatterns :: "(string \<times> string) list" where
  "digitPatterns =
    [(''1111110'', ''0''),
     (''0110000'', ''1''),
     (''1101101'', ''2''),
     (''1111001'', ''3''),
     (''0110011'', ''4''),
     (''1011011'', ''5''),
     (''1011111'', ''6''),
     (''1110000'', ''7''),
     (''1111111'', ''8''),
     (''1111011'', ''9''),
     (''1110111'', ''A''),
     (''0011111'', ''b''),
     (''1001110'', ''C''),
     (''0111101'', ''d''),
     (''1001111'', ''E''),
     (''1000111'', ''F''),
     (''0000000'', '' '')]"

text \<open>\<^verbatim>\<open>[segments.a ? '1' : '0', ..., segments.g ? '1' : '0'].join('')\<close>\<close>

definition bitChar :: "bool \<Rightarrow> char" where
  "bitChar v = (if v then CHR ''1'' else CHR ''0'')"

definition segPattern :: "SegmentState \<Rightarrow> string" where
  "segPattern s = map bitChar (segValues s)"

text \<open>
  \<^verbatim>\<open>return digitPatterns[pattern] || '?'\<close>: a missing key reads \<open>undefined\<close>, and
  \<open>||\<close> also replaces a falsy (empty) string.
\<close>

definition segmentsToDigit :: "SegmentState \<Rightarrow> string" where
  "segmentsToDigit s =
     (case map_of digitPatterns (segPattern s) of
        None \<Rightarrow> ''?''
      | Some v \<Rightarrow> if v = [] then ''?'' else v)"

section \<open>Reading value normalizer (\<open>OpenCVService.formatReadingValue\<close>)\<close>

text \<open>
  The function only looks at the ASCII characters \<open>0\<close>--\<open>9\<close>, \<open>.\<close> and \<open>-\<close> and deletes
  every other code unit, so a \<^typ>\<open>string\<close> models the JavaScript string.
\<close>

definition isDigit :: "char \<Rightarrow> bool" where
  "isDigit c = (c \<in> set ''0123456789'')"

text \<open>The characters that survive \<^verbatim>\<open>replace(/[^0-9.\-]/g, '')\<close>.\<close>

definition keptChar :: "char \<Rightarrow> bool" where
  "keptChar c = (isDigit c \<or> c = CHR ''.'' \<or> c = CHR ''-'')"

text \<open>
  \<^verbatim>\<open>String.prototype.split(sep)\<close> for a one-character separator: the fragments
  between the separators, never an empty array (\<^verbatim>\<open>"".split(".")\<close> is \<^verbatim>\<open>[""]\<close>).
\<close>

fun js_split :: "'a \<Rightarrow> 'a list \<Rightarrow> 'a list list" where
  "js_split sep [] = [[]]"
| "js_split sep (c # cs) =
     (if c = sep then [] # js_split sep cs
      else (c # hd (js_split sep cs)) # tl (js_split sep cs))"

text \<open>\<^verbatim>\<open>Array.prototype.join(sep)\<close> on strings.\<close>

fun js_join :: "'a list \<Rightarrow> 'a list list \<Rightarrow> 'a list" where
  "js_join sep [] = []"
| "js_join sep [p] = p"
| "js_join sep (p # q # ps) = p @ sep @ js_join sep (q # ps)"

text \<open>\<^verbatim>\<open>cleaned.replace(/^\./, '0.')\<close>\<close>

definition leadingDot :: "string \<Rightarrow> string" where
  "leadingDot s = (case s of [] \<Rightarrow> [] | c # cs \<Rightarrow> if c = CHR ''.'' then ''0.'' @ cs else s)"

text \<open>\<^verbatim>\<open>cleaned.replace(/\.$/, '')\<close>; without the \<open>m\<close> flag \<open>$\<close> is the end of the input.\<close>

definition trailingDot :: "string \<Rightarrow> string" where
  "trailingDot s = (if s \<noteq> [] \<and> last s = CHR ''.'' then butlast s else s)"

definition formatReadingValue :: "string \<Rightarrow> string" where
  "formatReadingValue rawValue =
     (if rawValue = [] then ''0''
      else
        let cleaned = filter keptChar rawValue;
            parts = js_split (CHR ''.'') cleaned;
            cleaned = (if length parts > 2
                       then hd parts @ ''.'' @ js_join [] (tl parts)
                       else cleaned);
            cleaned = leadingDot cleaned;
            cleaned = trailingDot cleaned
        in if cleaned = [] \<or> cleaned = ''-'' \<or> cleaned = ''.'' then ''0'' else cleaned)"

text \<open>
  The normalizer as the specification words it: strip, keep only the first of several
  dots, \<open>.\<close> in front becomes \<open>0.\<close>, a dot at the end is dropped, and an empty result,
  \<open>-\<close> or \<open>.\<close> becomes \<open>0\<close>.
\<close>

definition keepFirstDot :: "string \<Rightarrow> string" where
  "keepFirstDot s =
     (if count_list s (CHR ''.'') > 1
      then takeWhile (\<lambda>c. c \<noteq> CHR ''.'') s @ ''.'' @
           filter (\<lambda>c. c \<noteq> CHR ''.'') (dropWhile (\<lambda>c. c \<noteq> CHR ''.'') s)
      else s)"

definition normalize_spec :: "string \<Rightarrow> string" where
  "normalize_spec x =
     (let s = trailingDot (leadingDot (keepFirstDot (filter keptChar x)))
      in if s = [] \<or> s = ''-'' \<or> s = ''.'' then ''0'' else s)"

section \<open>JavaScript numbers\<close>

text \<open>
  A JavaScript number is an IEEE-754 double. A finite double is modelled by the rational
  it denotes, and an arithmetic operation by the exact operation followed by rounding to
  the nearest double, ties to even (\<open>dbl\<close>, 53 significant bits). The exponent range is
  not modelled: every value below is a pixel extent, a pixel count, a ratio of two of
  them or a confidence between 0 and 2, far inside the normal range. Pixel coordinates
  and counts are integers far below \<open>2^53\<close>, where double addition and multiplication
  are exact; they are modelled as \<^typ>\<open>int\<close> and \<^typ>\<open>nat\<close>.
\<close>

definition roundEven :: "rat \<Rightarrow> int" where
  "roundEven x =
     (let f = \<lfloor>x\<rfloor>; r = x - of_int f
      in if r < 1 / 2 then f else if 1 / 2 < r then f + 1 else if even f then f else f + 1)"

text \<open>\<open>\<lfloor>log\<^sub>2 q\<rfloor>\<close> for a positive rational, from the bit lengths of its numerator and denominator.\<close>

definition ilog2 :: "rat \<Rightarrow> int" where
  "ilog2 q =
     (let t = bitlen (fst (quotient_of q)) - bitlen (snd (quotient_of q))
      in if 2 powi t \<le> q then t else t - 1)"

definition dbl :: "rat \<Rightarrow> rat" where
  "dbl q = (if q = 0 then 0
            else let u = 2 powi (ilog2 \<bar>q\<bar> - 52) in of_int (roundEven (q / u)) * u)"

definition jsAdd :: "rat \<Rightarrow> rat \<Rightarrow> rat" where
  "jsAdd a b = dbl (a + b)"

definition jsMul :: "rat \<Rightarrow> rat \<Rightarrow> rat" where
  "jsMul a b = dbl (a * b)"

text \<open>Division by a non-zero number; each use below has a divisor that is not zero.\<close>

definition jsDiv :: "rat \<Rightarrow> rat \<Rightarrow> rat" where
  "jsDiv a b = dbl (a / b)"

section \<open>Confidence scorer (\<open>OpenCVService.calculateConfidence\<close>)\<close>

text \<open>
  \<^verbatim>\<open>isNaN(parseFloat(s))\<close>: \<open>parseFloat\<close> skips leading white space and converts the
  longest prefix that is a \<open>StrDecimalLiteral\<close>; it is \<open>NaN\<close> exactly when no prefix is
  one, that is unless, after an optional sign, the text starts with a digit, with a
  dot and a digit, or with \<open>Infinity\<close>. The argument here is always an output of
  \<open>formatReadingValue\<close>, which has no white space at all.
\<close>

definition isAsciiSpace :: "char \<Rightarrow> bool" where
  "isAsciiSpace c = (of_char c \<in> {9, 10, 11, 12, 13, 32 :: nat})"

definition parseFloat_isNaN :: "string \<Rightarrow> bool" where
  "parseFloat_isNaN s =
     (let t = dropWhile isAsciiSpace s;
          u = (case t of [] \<Rightarrow> []
               | c # r \<Rightarrow> if c = CHR ''+'' \<or> c = CHR ''-'' then r else t)
      in \<not> (case u of [] \<Rightarrow> False
             | c # r \<Rightarrow> isDigit c
                  \<or> (c = CHR ''.'' \<and> (case r of [] \<Rightarrow> False | d # _ \<Rightarrow> isDigit d))
                  \<or> take 8 u = ''Infinity''))"

text \<open>The amount one digit adds to \<open>totalConfidence\<close> in the \<open>forEach\<close> callback.\<close>

definition digitConfidence :: "nat \<Rightarrow> rat" where
  "digitConfidence n =
     (if 2 \<le> n \<and> n \<le> 7 then jsAdd (dbl (8 / 10)) (jsMul (jsDiv (of_nat n) 7) (dbl (2 / 10)))
      else if n = 1 then dbl (6 / 10)
      else dbl (1 / 10))"

definition calculateConfidence :: "SegmentState list \<Rightarrow> string \<Rightarrow> rat" where
  "calculateConfidence segments rawValue =
     (if segments = [] then 0
      else
        let (totalConfidence, validDigits) =
              fold (\<lambda>segmentState (t, v).
                      (jsAdd t (digitConfidence (activeSegments segmentState)), v + 1))
                   segments (0, 0 :: nat);
            averageConfidence =
              (if validDigits > 0 then jsDiv totalConfidence (of_nat validDigits) else 0);
            formattedValue = formatReadingValue rawValue;
            isValidNumber = \<not> parseFloat_isNaN formattedValue
        in if isValidNumber then min (jsMul averageConfidence (dbl (12 / 10))) 1
           else jsMul averageConfidence (dbl (7 / 10)))"

text \<open>
  The scorer as the specification words it. \<open>jsSum\<close> is the left-to-right sum and
  \<open>jsMean\<close> the arithmetic mean, in JavaScript arithmetic.
\<close>

definition jsSum :: "rat list \<Rightarrow> rat" where
  "jsSum xs = foldl jsAdd 0 xs"

definition jsMean :: "rat list \<Rightarrow> rat" where
  "jsMean xs = jsDiv (jsSum xs) (of_nat (length xs))"

definition baseConfidence_spec :: "nat \<Rightarrow> rat" where
  "baseConfidence_spec n =
     (if n = 0 then dbl (1 / 10)
      else if n = 1 then dbl (6 / 10)
      else jsAdd (dbl (8 / 10)) (jsMul (jsDiv (of_nat n) 7) (dbl (2 / 10))))"

definition confidence_spec :: "SegmentState list \<Rightarrow> string \<Rightarrow> rat" where
  "confidence_spec segs raw =
     (if segs = [] then 0
      else
        let avg = jsMean (map (\<lambda>s. baseConfidence_spec (activeSegments s)) segs)
        in if \<not> parseFloat_isNaN (formatReadingValue raw)
           then min (jsMul avg (dbl (12 / 10))) 1
           else jsMul avg (dbl (7 / 10)))"

section \<open>The vision pipeline of \<open>useOpenCV\<close>\<close>

subsection \<open>OpenCV values and primitives\<close>

text \<open>\<^verbatim>\<open>cv.Rect\<close>: \<open>{x, y, width, height}\<close>, integers.\<close>

record Rect =
  rect_x :: int
  rect_y :: int
  rect_width :: int
  rect_height :: int

text \<open>
  A single-channel \<^verbatim>\<open>cv.Mat\<close>: its size and the byte at a row and a column
  (\<^verbatim>\<open>ucharAt(row, col)\<close>).
\<close>

record Mat =
  rows :: nat
  cols :: nat
  ucharAt :: "nat \<Rightarrow> nat \<Rightarrow> nat"

text \<open>
  \<^verbatim>\<open>mat.roi(rect)\<close> and \<^verbatim>\<open>cv.countNonZero(mat)\<close> are OpenCV primitives, not code of the
  repository; they are modelled after OpenCV's documentation. \<open>roi\<close> is the view of
  the rectangle and throws (\<open>None\<close>) unless
  \<open>0 \<le> x\<close>, \<open>0 \<le> width\<close>, \<open>x + width \<le> cols\<close>, \<open>0 \<le> y\<close>, \<open>0 \<le> height\<close>, \<open>y + height \<le> rows\<close>.
\<close>

definition roi :: "Mat \<Rightarrow> Rect \<Rightarrow> Mat option" where
  "roi m r =
     (if 0 \<le> rect_x r \<and> 0 \<le> rect_width r \<and> rect_x r + rect_width r \<le> int (cols m) \<and>
         0 \<le> rect_y r \<and> 0 \<le> rect_height r \<and> rect_y r + rect_height r \<le> int (rows m)
      then Some \<lparr>rows = nat (rect_height r), cols = nat (rect_width r),
                 ucharAt = (\<lambda>i j. ucharAt m (nat (rect_y r) + i) (nat (rect_x r) + j))\<rparr>
      else None)"

definition countNonZero :: "Mat \<Rightarrow> nat" where
  "countNonZero m =
     length (filter (\<lambda>(i, j). ucharAt m i j \<noteq> 0) (List.product [0..<rows m] [0..<cols m]))"

text \<open>
  The state of the hook and the OpenCV calls whose results the repository only
  consumes: \<open>cvLoaded\<close> is \<^verbatim>\<open>cvRef.current\<close> being set, \<open>isReady\<close> the state of that name;
  \<open>binarize\<close> is the chain \<^verbatim>\<open>matFromImageData\<close>, \<^verbatim>\<open>cvtColor\<close>, \<^verbatim>\<open>GaussianBlur\<close>,
  \<^verbatim>\<open>threshold\<close> of \<open>preprocessImage\<close>, and \<open>boundingRects\<close> is \<^verbatim>\<open>findContours\<close> followed by
  \<^verbatim>\<open>boundingRect\<close> of each contour, in the order of the contours. \<open>None\<close> is a thrown
  exception.
\<close>

record 'img OpenCV =
  cvLoaded :: bool
  isReady :: bool
  binarize :: "'img \<Rightarrow> rat \<Rightarrow> Mat option"
  boundingRects :: "Mat \<Rightarrow> Rect list option"

text \<open>\<^verbatim>\<open>interface DetectionResult { value; confidence; segments }\<close>\<close>

record DetectionResult =
  dr_value :: string
  dr_confidence :: rat
  dr_segments :: "SegmentState list"

subsection \<open>\<open>preprocessImage\<close>\<close>

text \<open>\<open>null\<close> is \<open>None\<close>; the \<open>catch\<close> turns an exception of the chain into \<open>null\<close>.\<close>

definition preprocessImage :: "'img OpenCV \<Rightarrow> 'img \<Rightarrow> rat \<Rightarrow> Mat option" where
  "preprocessImage cv imageData threshold =
     (if \<not> cvLoaded cv \<or> \<not> isReady cv then None
      else binarize cv imageData threshold)"

subsection \<open>\<open>detectDisplay\<close>\<close>

text \<open>
  \<^verbatim>\<open>rect.height / rect.width\<close>. A zero width gives \<open>Infinity\<close> or \<open>NaN\<close>, written \<open>None\<close>:
  neither is both above \<open>1.2\<close> and below \<open>3.0\<close>.
\<close>

definition aspectRatio :: "Rect \<Rightarrow> rat option" where
  "aspectRatio rect =
     (if rect_width rect = 0 then None
      else Some (jsDiv (of_int (rect_height rect)) (of_int (rect_width rect))))"

text \<open>
  The filter
  \<^verbatim>\<open>area > 500 && area < 50000 && aspectRatio > 1.2 && aspectRatio < 3.0\<close>.
\<close>

definition digitLike :: "Rect \<Rightarrow> bool" where
  "digitLike rect =
     (let area = rect_width rect * rect_height rect
      in area > 500 \<and> area < 50000 \<and>
         (case aspectRatio rect of
            None \<Rightarrow> False
          | Some ratio \<Rightarrow> ratio > dbl (12 / 10) \<and> ratio < 3))"

text \<open>
  \<^verbatim>\<open>digitRegions.sort((a, b) => a.x - b.x)\<close> is the stable sort by \<open>x\<close>. An exception of
  \<open>findContours\<close> or \<open>boundingRect\<close> is caught and gives \<open>[]\<close>.
\<close>

definition detectDisplay :: "'img OpenCV \<Rightarrow> Mat option \<Rightarrow> Rect list" where
  "detectDisplay cv binaryImage =
     (if \<not> cvLoaded cv \<or> \<not> isReady cv then []
      else case binaryImage of
             None \<Rightarrow> []
           | Some img \<Rightarrow>
               (case boundingRects cv img of
                  None \<Rightarrow> []
                | Some rects \<Rightarrow> sort_key rect_x (filter digitLike rects)))"

subsection \<open>\<open>analyzeSegments\<close>\<close>

text \<open>One entry of the object \<open>segments\<close>: \<open>{ x, y, w, h }\<close> as fractions of the digit cell.\<close>

record SegPos =
  pos_x :: rat
  pos_y :: rat
  pos_w :: rat
  pos_h :: rat

definition segments :: "(char \<times> SegPos) list" where
  "segments =
    [(CHR ''a'', \<lparr>pos_x = dbl (2 / 10), pos_y = dbl 0, pos_w = dbl (6 / 10), pos_h = dbl (15 / 100)\<rparr>),
     (CHR ''b'', \<lparr>pos_x = dbl (7 / 10), pos_y = dbl 0, pos_w = dbl (15 / 100), pos_h = dbl (5 / 10)\<rparr>),
     (CHR ''c'', \<lparr>pos_x = dbl (7 / 10), pos_y = dbl (5 / 10), pos_w = dbl (15 / 100), pos_h = dbl (5 / 10)\<rparr>),
     (CHR ''d'', \<lparr>pos_x = dbl (2 / 10), pos_y = dbl (85 / 100), pos_w = dbl (6 / 10), pos_h = dbl (15 / 100)\<rparr>),
     (CHR ''e'', \<lparr>pos_x = dbl 0, pos_y = dbl (5 / 10), pos_w = dbl (15 / 100), pos_h = dbl (5 / 10)\<rparr>),
     (CHR ''f'', \<lparr>pos_x = dbl 0, pos_y = dbl 0, pos_w = dbl (15 / 100), pos_h = dbl (5 / 10)\<rparr>),
     (CHR ''g'', \<lparr>pos_x = dbl (2 / 10), pos_y = dbl (42 / 100), pos_w = dbl (6 / 10), pos_h = dbl (15 / 100)\<rparr>)]"

text \<open>
  \<^verbatim>\<open>new cv.Rect(x, y, w, h)\<close> with
  \<^verbatim>\<open>x = Math.floor(pos.x * digitRect.width)\<close> and so on.
\<close>

definition segmentRect :: "Rect \<Rightarrow> SegPos \<Rightarrow> Rect" where
  "segmentRect digitRect pos =
     \<lparr>rect_x = \<lfloor>jsMul (pos_x pos) (of_int (rect_width digitRect))\<rfloor>,
      rect_y = \<lfloor>jsMul (pos_y pos) (of_int (rect_height digitRect))\<rfloor>,
      rect_width = \<lfloor>jsMul (pos_w pos) (of_int (rect_width digitRect))\<rfloor>,
      rect_height = \<lfloor>jsMul (pos_h pos) (of_int (rect_height digitRect))\<rfloor>\<rparr>"

text \<open>The guard of the callback: the sub-rectangle is not empty and lies in the digit cell.\<close>

definition segmentInside :: "Rect \<Rightarrow> Rect \<Rightarrow> bool" where
  "segmentInside digitRect sr =
     (rect_x sr \<ge> 0 \<and> rect_y sr \<ge> 0 \<and> rect_width sr > 0 \<and> rect_height sr > 0 \<and>
      rect_x sr + rect_width sr \<le> rect_width digitRect \<and>
      rect_y sr + rect_height sr \<le> rect_height digitRect)"

text \<open>
  The body of the \<open>forEach\<close> callback for one segment: the value stored in
  \<open>segmentStates[segmentName]\<close>, or \<open>None\<close> when \<open>roi\<close> throws.
\<close>

definition segmentState :: "Mat \<Rightarrow> Rect \<Rightarrow> SegPos \<Rightarrow> bool option" where
  "segmentState digitROI digitRect pos =
     (let sr = segmentRect digitRect pos
      in if segmentInside digitRect sr
         then (case roi digitROI sr of
                 None \<Rightarrow> None
               | Some segmentROI \<Rightarrow>
                   let whitePixels = countNonZero segmentROI;
                       totalPixels = rect_width sr * rect_height sr;
                       whiteRatio = jsDiv (of_nat whitePixels) (of_int totalPixels)
                   in Some (whiteRatio > dbl (3 / 10)))
         else Some False)"

text \<open>The \<open>forEach\<close> over \<^verbatim>\<open>Object.entries(segments)\<close>; the first exception ends it.\<close>

fun forEachSegment ::
  "Mat \<Rightarrow> Rect \<Rightarrow> (char \<times> SegPos) list \<Rightarrow> (char \<times> bool) list option" where
  "forEachSegment digitROI digitRect [] = Some []"
| "forEachSegment digitROI digitRect ((segmentName, pos) # es) =
     (case segmentState digitROI digitRect pos of
        None \<Rightarrow> None
      | Some v \<Rightarrow>
          (case forEachSegment digitROI digitRect es of
             None \<Rightarrow> None
           | Some vs \<Rightarrow> Some ((segmentName, v) # vs)))"

text \<open>The object \<open>segmentStates\<close> read as a \<open>SegmentState\<close>.\<close>

definition asSegmentState :: "(char \<times> bool) list \<Rightarrow> SegmentState" where
  "asSegmentState st =
     \<lparr>seg_a = (map_of st (CHR ''a'') = Some True), seg_b = (map_of st (CHR ''b'') = Some True),
      seg_c = (map_of st (CHR ''c'') = Some True), seg_d = (map_of st (CHR ''d'') = Some True),
      seg_e = (map_of st (CHR ''e'') = Some True), seg_f = (map_of st (CHR ''f'') = Some True),
      seg_g = (map_of st (CHR ''g'') = Some True)\<rparr>"

text \<open>The bounds check at the head of the \<open>try\<close> block.\<close>

definition invalidBounds :: "Mat \<Rightarrow> Rect \<Rightarrow> bool" where
  "invalidBounds binaryImage digitRect =
     (rect_x digitRect < 0 \<or> rect_y digitRect < 0 \<or>
      rect_width digitRect \<le> 0 \<or> rect_height digitRect \<le> 0 \<or>
      rect_x digitRect + rect_width digitRect > int (cols binaryImage) \<or>
      rect_y digitRect + rect_height digitRect > int (rows binaryImage))"

text \<open>
  \<open>null\<close> arguments are \<open>None\<close>. Every exception inside the \<open>try\<close> block is caught and
  answered with the all-off state.
\<close>

definition analyzeSegments :: "'img OpenCV \<Rightarrow> Mat option \<Rightarrow> Rect option \<Rightarrow> SegmentState" where
  "analyzeSegments cv binaryImage digitRect =
     (if \<not> cvLoaded cv \<or> \<not> isReady cv then allOff
      else case (binaryImage, digitRect) of
             (Some img, Some r) \<Rightarrow>
               if invalidBounds img r then allOff
               else (case roi img r of
                       None \<Rightarrow> allOff
                     | Some digitROI \<Rightarrow>
                         (case forEachSegment digitROI r segments of
                            None \<Rightarrow> allOff
                          | Some segmentStates \<Rightarrow> asSegmentState segmentStates))
           | _ \<Rightarrow> allOff)"

subsection \<open>\<open>processImage\<close>\<close>

definition emptyResult :: DetectionResult where
  "emptyResult = \<lparr>dr_value = [], dr_confidence = 0, dr_segments = []\<rparr>"

text \<open>
  \<^verbatim>\<open>digit !== '?' ? 0.9 : Math.max(0.1, segmentCount / 7)\<close>
\<close>

definition regionConfidence :: "SegmentState \<Rightarrow> string \<Rightarrow> rat" where
  "regionConfidence segs digit =
     (let segmentCount = activeSegments segs
      in if digit \<noteq> ''?'' then dbl (9 / 10)
         else max (dbl (1 / 10)) (jsDiv (of_nat segmentCount) 7))"

text \<open>
  One turn of \<^verbatim>\<open>digitRegions.forEach\<close> on the accumulators
  \<open>(digits, allSegments, totalConfidence)\<close>.
\<close>

definition analyzeRegion ::
  "'img OpenCV \<Rightarrow> Mat \<Rightarrow> Rect \<Rightarrow> string list \<times> SegmentState list \<times> rat
     \<Rightarrow> string list \<times> SegmentState list \<times> rat" where
  "analyzeRegion cv binaryImage region acc =
     (case acc of (digits, allSegments, totalConfidence) \<Rightarrow>
        let segs = analyzeSegments cv (Some binaryImage) (Some region);
            digit = segmentsToDigit segs;
            confidence = regionConfidence segs digit
        in (digits @ [digit], allSegments @ [segs], jsAdd totalConfidence confidence))"

text \<open>
  The \<open>try\<close> block. \<open>imageData\<close> is \<open>None\<close> for \<open>null\<close>, on which reading
  \<^verbatim>\<open>imageData.width\<close> for the first log line throws a \<open>TypeError\<close>.
\<close>

datatype exn = TypeError

definition processImage_try ::
  "'img OpenCV \<Rightarrow> 'img option \<Rightarrow> rat \<Rightarrow> exn + DetectionResult" where
  "processImage_try cv imageData threshold =
     (case imageData of
        None \<Rightarrow> Inl TypeError
      | Some frame \<Rightarrow>
          (case preprocessImage cv frame threshold of
             None \<Rightarrow> Inr emptyResult
           | Some binaryImage \<Rightarrow>
               let digitRegions = detectDisplay cv (Some binaryImage)
               in if length digitRegions = 0 then Inr emptyResult
                  else
                    let (digits, allSegments, totalConfidence) =
                          fold (analyzeRegion cv binaryImage) digitRegions ([], [], 0);
                        averageConfidence =
                          jsDiv totalConfidence (of_nat (length digitRegions));
                        val = js_join [] digits
                    in Inr \<lparr>dr_value = val, dr_confidence = averageConfidence,
                            dr_segments = allSegments\<rparr>))"

text \<open>The whole function: the readiness guard, then the \<open>try\<close> block under its \<open>catch\<close>.\<close>

definition processImage :: "'img OpenCV \<Rightarrow> 'img option \<Rightarrow> rat \<Rightarrow> DetectionResult" where
  "processImage cv imageData threshold =
     (if \<not> isReady cv then emptyResult
      else case processImage_try cv imageData threshold of
             Inl err \<Rightarrow> emptyResult
           | Inr result \<Rightarrow> result)"

section \<open>CSV codec (\<open>CSVService\<close>)\<close>

subsection \<open>Strings, dates and the runtime\<close>

text \<open>
  The codec trims with \<^verbatim>\<open>String.prototype.trim\<close>, whose white space reaches beyond
  ASCII, so its strings are lists of UTF-16 code units. \<open>js\<close> writes an ASCII literal.
\<close>

type_synonym jsstr = "nat list"

definition js :: "string \<Rightarrow> jsstr" where
  "js s = map of_char s"

text \<open>The \<open>WhiteSpace\<close> and \<open>LineTerminator\<close> code units of ECMAScript.\<close>

definition isWhiteSpace :: "nat \<Rightarrow> bool" where
  "isWhiteSpace c =
     (c \<in> {9, 10, 11, 12, 13, 32, 160, 5760, 8232, 8233, 8239, 8287, 12288, 65279}
      \<or> (8192 \<le> c \<and> c \<le> 8202))"

definition js_trim :: "jsstr \<Rightarrow> jsstr" where
  "js_trim s = rev (dropWhile isWhiteSpace (rev (dropWhile isWhiteSpace s)))"

text \<open>
  \<^verbatim>\<open>toLowerCase\<close>. The header names it produces are only compared with ASCII names, so
  the Unicode case mapping is written out for the units whose lower case is an ASCII
  letter (\<open>A\<close>--\<open>Z\<close> and the Kelvin sign); other units are left as they are.
\<close>

definition lowerUnit :: "nat \<Rightarrow> nat" where
  "lowerUnit c = (if 65 \<le> c \<and> c \<le> 90 then c + 32 else if c = 8490 then 107 else c)"

definition toLowerCase :: "jsstr \<Rightarrow> jsstr" where
  "toLowerCase s = map lowerUnit s"

text \<open>\<^verbatim>\<open>String(n)\<close> for an integer.\<close>

fun digitsOf :: "nat \<Rightarrow> jsstr" where
  "digitsOf n = (if n < 10 then [48 + n] else digitsOf (n div 10) @ [48 + n mod 10])"

declare digitsOf.simps [simp del]

definition numToString :: "int \<Rightarrow> jsstr" where
  "numToString i = (if i < 0 then 45 # digitsOf (nat (- i)) else digitsOf (nat i))"

text \<open>
  A \<open>Date\<close> is its time value in milliseconds, or \<open>None\<close> for an invalid date. The
  built-ins of \<open>Date\<close> are parameters: \<open>toISOString\<close> on a valid time value,
  \<open>dateParse\<close> for \<^verbatim>\<open>new Date(string)\<close>, and \<open>dateNow\<close> for the clock read by
  \<^verbatim>\<open>Date.now()\<close> while row \<open>i\<close> is decoded.
\<close>

record Runtime =
  toISOString :: "int \<Rightarrow> jsstr"
  dateParse :: "jsstr \<Rightarrow> int option"
  dateNow :: "nat \<Rightarrow> int"

text \<open>
  The type \<open>Reading\<close> of \<open>shared/schema.ts\<close>; the fields carry the prefix \<open>r_\<close>
  (\<open>id\<close>, \<open>value\<close> and \<open>unit\<close> are taken in HOL).
\<close>

record Reading =
  r_id :: jsstr
  r_value :: jsstr
  r_quantity :: jsstr
  r_unit :: jsstr
  r_timestamp :: "int option"
  r_mode :: jsstr
  r_confidence :: "jsstr option"

text \<open>
  What the codec throws: \<^verbatim>\<open>new Error(message)\<close> in \<open>parseCSV\<close> (the specification's
  \<open>FormatError\<close>), and the \<open>RangeError\<close> of \<open>toISOString\<close> on an invalid date.
\<close>

datatype jsError = Error jsstr | RangeError

subsection \<open>\<open>generateCSV\<close>\<close>

definition escapeCsvField :: "jsstr \<Rightarrow> jsstr" where
  "escapeCsvField fld =
     (if 44 \<in> set fld \<or> 34 \<in> set fld \<or> 10 \<in> set fld
      then [34] @ concat (map (\<lambda>c. if c = 34 then [34, 34] else [c]) fld) @ [34]
      else fld)"

text \<open>The callback of \<^verbatim>\<open>readings.map\<close>: one line of the file.\<close>

definition csvRow :: "Runtime \<Rightarrow> Reading \<Rightarrow> jsError + jsstr" where
  "csvRow rt reading =
     (case r_timestamp reading of
        None \<Rightarrow> Inl RangeError
      | Some t \<Rightarrow>
          let timestamp = toISOString rt t;
              val = r_value reading;
              quantity = escapeCsvField (r_quantity reading);
              unit = escapeCsvField (r_unit reading);
              mode = r_mode reading;
              confidence = (case r_confidence reading of
                              None \<Rightarrow> js ''0''
                            | Some c \<Rightarrow> if c = [] then js ''0'' else c)
          in Inr (timestamp @ js '','' @ val @ js '','' @ quantity @ js '','' @ unit @
                  js '','' @ mode @ js '','' @ confidence))"

text \<open>\<open>map\<close> with a callback that may throw: the first exception leaves the loop.\<close>

fun mapThrowing :: "('a \<Rightarrow> jsError + 'b) \<Rightarrow> 'a list \<Rightarrow> jsError + 'b list" where
  "mapThrowing f [] = Inr []"
| "mapThrowing f (x # xs) =
     (case f x of
        Inl e \<Rightarrow> Inl e
      | Inr y \<Rightarrow> (case mapThrowing f xs of Inl e \<Rightarrow> Inl e | Inr ys \<Rightarrow> Inr (y # ys)))"

definition generateCSV :: "Runtime \<Rightarrow> Reading list \<Rightarrow> jsError + jsstr" where
  "generateCSV rt readings =
     (if length readings = 0
      then Inr (js ''timestamp,value,quantity,unit,mode,confidence'' @ [10])
      else
        let headers = [js ''timestamp'', js ''value'', js ''quantity'', js ''unit'',
                       js ''mode'', js ''confidence''];
            csvHeader = js_join (js '','') headers @ [10]
        in case mapThrowing (csvRow rt) readings of
             Inl e \<Rightarrow> Inl e
           | Inr csvRows \<Rightarrow> Inr (csvHeader @ js_join [10] csvRows))"

subsection \<open>\<open>parseCSV\<close>\<close>

text \<open>
  \<open>parseCSVLine\<close>: the loop over the characters with its three variables. Code unit 34
  is the double quote, 44 the comma. \<^verbatim>\<open>line[i + 1]\<close> past the end is \<open>undefined\<close>.
\<close>

fun parseCSVLine_loop :: "jsstr \<Rightarrow> jsstr list \<Rightarrow> jsstr \<Rightarrow> bool \<Rightarrow> jsstr list" where
  "parseCSVLine_loop [] result current inQuotes = result @ [js_trim current]"
| "parseCSVLine_loop (c # cs) result current inQuotes =
     (if c = 34 then
        (case cs of
           [] \<Rightarrow> parseCSVLine_loop cs result current (\<not> inQuotes)
         | c' # cs' \<Rightarrow>
             if inQuotes \<and> c' = 34 then parseCSVLine_loop cs' result (current @ [34]) inQuotes
             else parseCSVLine_loop cs result current (\<not> inQuotes))
      else if c = 44 \<and> \<not> inQuotes then parseCSVLine_loop cs (result @ [js_trim current]) [] inQuotes
      else parseCSVLine_loop cs result (current @ [c]) inQuotes)"

definition parseCSVLine :: "jsstr \<Rightarrow> jsstr list" where
  "parseCSVLine line = parseCSVLine_loop line [] [] False"

text \<open>\<^verbatim>\<open>headers.indexOf(name)\<close>; \<open>None\<close> is \<open>-1\<close>.\<close>

fun indexOf :: "'a list \<Rightarrow> 'a \<Rightarrow> nat option" where
  "indexOf [] x = None"
| "indexOf (y # ys) x = (if y = x then Some 0 else map_option Suc (indexOf ys x))"

text \<open>\<^verbatim>\<open>values[headers.indexOf(name)]\<close>; \<open>None\<close> is \<open>undefined\<close>.\<close>

definition valueAt :: "jsstr list \<Rightarrow> jsstr list \<Rightarrow> jsstr \<Rightarrow> jsstr option" where
  "valueAt headers values name =
     (case indexOf headers name of
        None \<Rightarrow> None
      | Some k \<Rightarrow> if k < length values then Some (values ! k) else None)"

text \<open>
  The body of the \<open>for\<close> loop for line \<open>i\<close>: the reading pushed, or \<open>None\<close> when the row
  is skipped. \<^verbatim>\<open>new Date(undefined)\<close> is an invalid date, and a missing or empty
  \<open>value\<close>, \<open>quantity\<close> or \<open>unit\<close> is falsy. Nothing in the \<open>try\<close> block throws.
\<close>

definition parseRow :: "Runtime \<Rightarrow> jsstr list \<Rightarrow> nat \<Rightarrow> jsstr \<Rightarrow> Reading option" where
  "parseRow rt headers i line =
     (let values = parseCSVLine line
      in if length values \<noteq> length headers then None
         else
           let timestamp = (case valueAt headers values (js ''timestamp'') of
                              None \<Rightarrow> None
                            | Some s \<Rightarrow> dateParse rt s);
               mode = (case valueAt headers values (js ''mode'') of
                         None \<Rightarrow> js ''manual''
                       | Some m \<Rightarrow> if m = [] then js ''manual'' else m);
               confidence = (case valueAt headers values (js ''confidence'') of
                               None \<Rightarrow> None
                             | Some c \<Rightarrow> if c = [] then None else Some c)
           in if timestamp = None then None
              else
                (case (valueAt headers values (js ''value''),
                       valueAt headers values (js ''quantity''),
                       valueAt headers values (js ''unit'')) of
                   (Some v, Some q, Some u) \<Rightarrow>
                     if v = [] \<or> q = [] \<or> u = [] then None
                     else Some \<lparr>r_id = js ''csv_'' @ numToString (int i) @ js ''_'' @
                                        numToString (dateNow rt i),
                                 r_value = v, r_quantity = q, r_unit = u,
                                 r_timestamp = timestamp, r_mode = mode,
                                 r_confidence = confidence\<rparr>
                 | _ \<Rightarrow> None))"

text \<open>The \<open>for\<close> loop from line \<open>i\<close> on.\<close>

fun parseRows :: "Runtime \<Rightarrow> jsstr list \<Rightarrow> nat \<Rightarrow> jsstr list \<Rightarrow> Reading list" where
  "parseRows rt headers i [] = []"
| "parseRows rt headers i (line # ls) =
     (case parseRow rt headers i line of
        None \<Rightarrow> parseRows rt headers (i + 1) ls
      | Some reading \<Rightarrow> reading # parseRows rt headers (i + 1) ls)"

definition requiredHeaders :: "jsstr list" where
  "requiredHeaders = [js ''timestamp'', js ''value'', js ''quantity'', js ''unit'']"

definition parseCSV :: "Runtime \<Rightarrow> jsstr \<Rightarrow> jsError + Reading list" where
  "parseCSV rt csvContent =
     (let lines = js_split 10 (js_trim csvContent)
      in if length lines < 2
         then Inl (Error (js ''CSV file must contain at least a header and one data row''))
         else
           let headers = map (\<lambda>h. toLowerCase (js_trim h)) (js_split 44 (hd lines));
               missingHeaders = filter (\<lambda>h. h \<notin> set headers) requiredHeaders
           in if length missingHeaders > 0
              then Inl (Error (js ''Missing required CSV headers: '' @
                               js_join (js '', '') missingHeaders))
              else Inr (parseRows rt headers 1 (tl lines)))"

section \<open>Notions used in the statements and proofs\<close>

text \<open>The \<open>2^7\<close> strings of seven characters \<open>0\<close> and \<open>1\<close>.\<close>

definition patterns7 :: "string set" where
  "patterns7 = {p. set p \<subseteq> {CHR ''0'', CHR ''1''} \<and> length p = 7}"

text \<open>The state with every segment lit.\<close>

definition allOn :: SegmentState where
  "allOn = \<lparr>seg_a = True, seg_b = True, seg_c = True, seg_d = True,
            seg_e = True, seg_f = True, seg_g = True\<rparr>"

text \<open>The shape of every output of the normalizer.\<close>

definition canonical :: "string \<Rightarrow> bool" where
  "canonical y \<longleftrightarrow>
     (\<forall>c\<in>set y. keptChar c) \<and> count_list y (CHR ''.'') \<le> 1 \<and> y \<noteq> [] \<and>
     hd y \<noteq> CHR ''.'' \<and> last y \<noteq> CHR ''.'' \<and> y \<noteq> ''-''"

text \<open>
  The score of one region as the claim on \<open>processImage\<close> words it. The active segment
  count is the number of the seven segments that are on, added up segment by segment.
\<close>

definition litCount_spec :: "SegmentState \<Rightarrow> nat" where
  "litCount_spec s =
     (if seg_a s then 1 else 0) + (if seg_b s then 1 else 0) + (if seg_c s then 1 else 0) +
     (if seg_d s then 1 else 0) + (if seg_e s then 1 else 0) + (if seg_f s then 1 else 0) +
     (if seg_g s then 1 else 0)"

definition regionScore_spec :: "SegmentState \<Rightarrow> rat" where
  "regionScore_spec s =
     (if segmentsToDigit s = ''?'' then max (dbl (1 / 10)) (jsDiv (of_nat (litCount_spec s)) 7)
      else dbl (9 / 10))"

text \<open>
  The filter of the region detector as the specification words it, in exact arithmetic:
  area strictly between 500 and 50000, height over width strictly between 1.2 and 3.
\<close>

definition retained_spec :: "Rect \<Rightarrow> bool" where
  "retained_spec r =
     (500 < rect_width r * rect_height r \<and> rect_width r * rect_height r < 50000 \<and>
      (12 / 10 :: rat) < of_int (rect_height r) / of_int (rect_width r) \<and>
      (of_int (rect_height r) / of_int (rect_width r) :: rat) < 3)"

text \<open>
  The segment geometry of the specification: \<open>x\<close>, \<open>y\<close>, \<open>w\<close>, \<open>h\<close> of each segment as exact
  fractions of the width and height of the digit cell, and the sub-rectangle they give
  when every coordinate and extent is rounded down.
\<close>

definition geometry_spec :: "(char \<times> SegPos) list" where
  "geometry_spec =
    [(CHR ''a'', \<lparr>pos_x = 20 / 100, pos_y = 0, pos_w = 60 / 100, pos_h = 15 / 100\<rparr>),
     (CHR ''b'', \<lparr>pos_x = 70 / 100, pos_y = 0, pos_w = 15 / 100, pos_h = 50 / 100\<rparr>),
     (CHR ''c'', \<lparr>pos_x = 70 / 100, pos_y = 50 / 100, pos_w = 15 / 100, pos_h = 50 / 100\<rparr>),
     (CHR ''d'', \<lparr>pos_x = 20 / 100, pos_y = 85 / 100, pos_w = 60 / 100, pos_h = 15 / 100\<rparr>),
     (CHR ''e'', \<lparr>pos_x = 0, pos_y = 50 / 100, pos_w = 15 / 100, pos_h = 50 / 100\<rparr>),
     (CHR ''f'', \<lparr>pos_x = 0, pos_y = 0, pos_w = 15 / 100, pos_h = 50 / 100\<rparr>),
     (CHR ''g'', \<lparr>pos_x = 20 / 100, pos_y = 42 / 100, pos_w = 60 / 100, pos_h = 15 / 100\<rparr>)]"

definition fractionsAt :: "char \<Rightarrow> SegPos" where
  "fractionsAt c =
     (case map_of geometry_spec c of
        Some geo \<Rightarrow> geo
      | None \<Rightarrow> \<lparr>pos_x = 0, pos_y = 0, pos_w = 0, pos_h = 0\<rparr>)"

definition subRect_spec :: "Rect \<Rightarrow> SegPos \<Rightarrow> Rect" where
  "subRect_spec digitRect geo =
     \<lparr>rect_x = \<lfloor>pos_x geo * of_int (rect_width digitRect)\<rfloor>,
      rect_y = \<lfloor>pos_y geo * of_int (rect_height digitRect)\<rfloor>,
      rect_width = \<lfloor>pos_w geo * of_int (rect_width digitRect)\<rfloor>,
      rect_height = \<lfloor>pos_h geo * of_int (rect_height digitRect)\<rfloor>\<rparr>"

text \<open>
  \<open>nearFloor q n c\<close>: the integer \<open>c\<close> is the exact \<open>\<lfloor>q * n\<rfloor>\<close>, or one below it where \<open>q * n\<close> is
  a whole number.
\<close>

definition nearFloor :: "rat \<Rightarrow> int \<Rightarrow> int \<Rightarrow> bool" where
  "nearFloor q n c =
     (c = \<lfloor>q * of_int n\<rfloor> \<or>
      (c = \<lfloor>q * of_int n\<rfloor> - 1 \<and> q * of_int n = of_int \<lfloor>q * of_int n\<rfloor>))"

text \<open>
  A sub-rectangle of the digit cell in the coordinates of the source image, and the
  number of non-zero pixels of the image inside a rectangle.
\<close>

definition absRect :: "Rect \<Rightarrow> Rect \<Rightarrow> Rect" where
  "absRect digitRect sr =
     \<lparr>rect_x = rect_x digitRect + rect_x sr, rect_y = rect_y digitRect + rect_y sr,
      rect_width = rect_width sr, rect_height = rect_height sr\<rparr>"

definition whitePixelsIn :: "Mat \<Rightarrow> Rect \<Rightarrow> nat" where
  "whitePixelsIn m r =
     length (filter (\<lambda>(i, j). ucharAt m (nat (rect_y r) + i) (nat (rect_x r) + j) \<noteq> 0)
                    (List.product [0..<nat (rect_height r)] [0..<nat (rect_width r)]))"

text \<open>
  The state of one segment as the specification words it, for a sub-rectangle \<open>sr\<close> of
  the digit cell: \<open>sr\<close> has pixels and does not leave the cell, and the fraction of white
  pixels of the image inside it is above \<open>0.30\<close>, in exact arithmetic.
\<close>

definition withinCell_spec :: "Rect \<Rightarrow> Rect \<Rightarrow> bool" where
  "withinCell_spec digitRect sr =
     (0 < rect_width sr \<and> 0 < rect_height sr \<and> 0 \<le> rect_x sr \<and> 0 \<le> rect_y sr \<and>
      rect_x sr + rect_width sr \<le> rect_width digitRect \<and>
      rect_y sr + rect_height sr \<le> rect_height digitRect)"

definition whiteFraction_spec :: "Mat \<Rightarrow> Rect \<Rightarrow> rat" where
  "whiteFraction_spec img r =
     of_nat (whitePixelsIn img r) / of_int (rect_width r * rect_height r)"

definition segmentOn_spec :: "Mat \<Rightarrow> Rect \<Rightarrow> Rect \<Rightarrow> bool" where
  "segmentOn_spec img digitRect sr =
     (withinCell_spec digitRect sr \<and> 30 / 100 < whiteFraction_spec img (absRect digitRect sr))"

text \<open>The entry of the table \<open>segments\<close> under a name.\<close>

definition segmentAt :: "char \<Rightarrow> SegPos" where
  "segmentAt c =
     (case map_of segments c of
        Some pos \<Rightarrow> pos
      | None \<Rightarrow> \<lparr>pos_x = 0, pos_y = 0, pos_w = 0, pos_h = 0\<rparr>)"

text \<open>
  Concrete inputs for the examples: a hook that is ready, an all-white image, an image
  whose white pixels are whole columns, a digit cell at the top of the image, and an
  all-white frame of 20 by 40 pixels whose only contour is its own border.
\<close>

definition cvReady :: "unit OpenCV" where
  "cvReady = \<lparr>cvLoaded = True, isReady = True,
              binarize = (\<lambda>frame threshold. None), boundingRects = (\<lambda>m. None)\<rparr>"

definition whiteMat :: "nat \<Rightarrow> nat \<Rightarrow> Mat" where
  "whiteMat h w = \<lparr>rows = h, cols = w, ucharAt = (\<lambda>i j. 255)\<rparr>"

definition columnMat :: "nat \<Rightarrow> nat \<Rightarrow> (nat \<Rightarrow> bool) \<Rightarrow> Mat" where
  "columnMat h w white = \<lparr>rows = h, cols = w, ucharAt = (\<lambda>i j. if white j then 255 else 0)\<rparr>"

definition cell :: "int \<Rightarrow> int \<Rightarrow> int \<Rightarrow> Rect" where
  "cell x w h = \<lparr>rect_x = x, rect_y = 0, rect_width = w, rect_height = h\<rparr>"

definition cvFrame :: "unit OpenCV" where
  "cvFrame = \<lparr>cvLoaded = True, isReady = True,
              binarize = (\<lambda>frame threshold. Some (whiteMat 40 20)),
              boundingRects = (\<lambda>m. Some [cell 0 20 40])\<rparr>"

text \<open>A hook whose detector reports four outlines, from right to left.\<close>

definition cvContours :: "unit OpenCV" where
  "cvContours = \<lparr>cvLoaded = True, isReady = True,
                 binarize = (\<lambda>frame threshold. Some (whiteMat 100 200)),
                 boundingRects = (\<lambda>m. Some [cell 90 25 40, cell 60 10 10, cell 30 20 50,
                                              cell 0 40 40])\<rparr>"

text \<open>
  An image 90 pixels wide and 10 high whose columns 62 to 65 are white: segment \<open>b\<close> of
  the cell that covers it starts at column 62 in the code and at column 63 in exact
  arithmetic.
\<close>

definition bandMat :: Mat where
  "bandMat = columnMat 10 90 (\<lambda>j. 62 \<le> j \<and> j \<le> 65)"

text \<open>
  A frame with two digit cells side by side, reported from right to left: the left cell
  is white all over, the right cell is white in its columns 4 to 13 only, which lights
  the three horizontal segments and no vertical one.
\<close>

definition twoDigitMat :: Mat where
  "twoDigitMat = columnMat 40 40 (\<lambda>j. j < 20 \<or> (24 \<le> j \<and> j < 34))"

definition cvTwoDigits :: "unit OpenCV" where
  "cvTwoDigits = \<lparr>cvLoaded = True, isReady = True,
                  binarize = (\<lambda>frame threshold. Some twoDigitMat),
                  boundingRects = (\<lambda>m. Some [cell 20 20 40, cell 0 20 40])\<rparr>"




text \<open>
  Well-formed readings. A field is trimmed when \<open>trim\<close> leaves it alone. The decimal
  \<open>value\<close> and the \<open>confidence\<close> are plain: not empty, trimmed, and free of comma, quote
  and line feed. \<open>quantity\<close> and \<open>unit\<close> may hold commas and quotes, which the encoder
  escapes, but no line feed, and are not empty and trimmed. \<open>mode\<close> is \<open>manual\<close> or
  \<open>auto\<close>. The timestamp is a valid date whose ISO text is plain and is read back by
  \<open>Date\<close> as the same instant.
\<close>

definition trimmed :: "jsstr \<Rightarrow> bool" where
  "trimmed s = (s = [] \<or> (\<not> isWhiteSpace (hd s) \<and> \<not> isWhiteSpace (last s)))"

definition plainField :: "jsstr \<Rightarrow> bool" where
  "plainField s = (s \<noteq> [] \<and> trimmed s \<and> 44 \<notin> set s \<and> 34 \<notin> set s \<and> 10 \<notin> set s)"

definition quotableField :: "jsstr \<Rightarrow> bool" where
  "quotableField s = (s \<noteq> [] \<and> trimmed s \<and> 10 \<notin> set s)"

definition wellFormed :: "Runtime \<Rightarrow> Reading \<Rightarrow> bool" where
  "wellFormed rt r =
     ((case r_timestamp r of
         None \<Rightarrow> False
       | Some t \<Rightarrow> plainField (toISOString rt t) \<and> dateParse rt (toISOString rt t) = Some t) \<and>
      plainField (r_value r) \<and> quotableField (r_quantity r) \<and> quotableField (r_unit r) \<and>
      (r_mode r = js ''manual'' \<or> r_mode r = js ''auto'') \<and>
      (case r_confidence r of None \<Rightarrow> True | Some c \<Rightarrow> c = [] \<or> plainField c))"

text \<open>The fields the round trip preserves.\<close>

definition sameFields :: "Reading \<Rightarrow> Reading \<Rightarrow> bool" where
  "sameFields a b =
     (r_value a = r_value b \<and> r_quantity a = r_quantity b \<and> r_unit a = r_unit b \<and>
      r_mode a = r_mode b \<and> r_timestamp a = r_timestamp b)"

text \<open>
  A runtime for the examples: the epoch and its ISO text, and a clock that stands
  still. The reading of the examples has a comma and a quote in its unit.
\<close>

definition rtEpoch :: Runtime where
  "rtEpoch = \<lparr>toISOString = (\<lambda>t. js ''1970-01-01T00:00:00.000Z''),
              dateParse = (\<lambda>s. if s = js ''1970-01-01T00:00:00.000Z'' then Some 0 else None),
              dateNow = (\<lambda>i. 0)\<rparr>"

definition sampleReading :: Reading where
  "sampleReading = \<lparr>r_id = js ''a1'', r_value = js ''1.5'', r_quantity = js ''voltage'',
                    r_unit = [109, 86, 44, 34], r_timestamp = Some 0, r_mode = js ''auto'',
                    r_confidence = None\<rparr>"

text \<open>
  The text the encoder writes: the body of a quoted field, the confidence column, one
  row, the header line and the header names.
\<close>

definition quoteBody :: "jsstr \<Rightarrow> jsstr" where
  "quoteBody f = concat (map (\<lambda>c. if c = 34 then [34, 34] else [c]) f)"

definition csvConfidence :: "Reading \<Rightarrow> jsstr" where
  "csvConfidence r =
     (case r_confidence r of None \<Rightarrow> js ''0'' | Some c \<Rightarrow> if c = [] then js ''0'' else c)"

definition rowOf :: "Runtime \<Rightarrow> Reading \<Rightarrow> jsstr" where
  "rowOf rt r =
     (case r_timestamp r of None \<Rightarrow> [] | Some t \<Rightarrow> toISOString rt t) @ [44] @ r_value r @ [44] @
     escapeCsvField (r_quantity r) @ [44] @ escapeCsvField (r_unit r) @ [44] @
     r_mode r @ [44] @ csvConfidence r"

definition headerLine :: jsstr where
  "headerLine = js ''timestamp,value,quantity,unit,mode,confidence''"

definition headerList :: "jsstr list" where
  "headerList = [js ''timestamp'', js ''value'', js ''quantity'', js ''unit'', js ''mode'',
                 js ''confidence'']"

section \<open>The digit decoder\<close>

lemma segPattern_expand:
  "segPattern s = [bitChar (seg_a s), bitChar (seg_b s), bitChar (seg_c s), bitChar (seg_d s),
                   bitChar (seg_e s), bitChar (seg_f s), bitChar (seg_g s)]"
  by (simp add: segPattern_def segValues_def)

lemma digit_keys:
  "map fst digitPatterns =
     [''1111110'', ''0110000'', ''1101101'', ''1111001'', ''0110011'', ''1011011'',
      ''1011111'', ''1110000'', ''1111111'', ''1111011'', ''1110111'', ''0011111'',
      ''1001110'', ''0111101'', ''1001111'', ''1000111'', ''0000000'']"
  by (simp add: digitPatterns_def)

lemma digit_vals_ok: "(k, v) \<in> set digitPatterns \<Longrightarrow> length v = 1 \<and> v \<noteq> ''?''"
  by (auto simp: digitPatterns_def)

lemma segmentsToDigit_lookup:
  "segmentsToDigit s =
     (case map_of digitPatterns (segPattern s) of None \<Rightarrow> ''?'' | Some v \<Rightarrow> v)"
  by (auto simp: segmentsToDigit_def split: option.splits dest!: map_of_SomeD digit_vals_ok)

lemma segmentsToDigit_length: "length (segmentsToDigit s) = 1"
  by (auto simp: segmentsToDigit_lookup split: option.splits dest!: map_of_SomeD digit_vals_ok)

lemma segmentsToDigit_unknown:
  "segmentsToDigit s = ''?'' \<longleftrightarrow> segPattern s \<notin> fst ` set digitPatterns"
  by (auto simp: segmentsToDigit_lookup map_of_eq_None_iff[symmetric]
           split: option.splits dest!: map_of_SomeD digit_vals_ok)

lemma card_patterns7: "card patterns7 = 128"
proof -
  have "card {xs. set xs \<subseteq> {CHR ''0'', CHR ''1''} \<and> length xs = 7}
          = card {CHR ''0'', CHR ''1''} ^ 7"
    by (rule card_lists_length_eq) simp
  moreover have "card {CHR ''0'', CHR ''1''} = 2" by simp
  ultimately show ?thesis unfolding patterns7_def by simp
qed

lemma keys_in_patterns7: "fst ` set digitPatterns \<subseteq> patterns7"
  unfolding set_map[symmetric] digit_keys patterns7_def by simp

lemma distinct_digit_keys: "distinct (map fst digitPatterns)"
  unfolding digit_keys by simp

lemma card_keys: "card (fst ` set digitPatterns) = 17"
proof -
  have "card (set (map fst digitPatterns)) = length (map fst digitPatterns)"
    using distinct_digit_keys by (rule distinct_card)
  then show ?thesis unfolding set_map by (simp add: digitPatterns_def)
qed

lemma card_unmapped: "card (patterns7 - fst ` set digitPatterns) = 111"
proof -
  have "card (patterns7 - fst ` set digitPatterns)
          = card patterns7 - card (fst ` set digitPatterns)"
    using keys_in_patterns7 by (intro card_Diff_subset) auto
  then show ?thesis by (simp add: card_patterns7 card_keys)
qed

lemma segPattern_in: "segPattern s \<in> patterns7"
  by (auto simp: patterns7_def segPattern_expand bitChar_def)

lemma segPattern_surj:
  assumes "p \<in> patterns7"
  shows "\<exists>s. segPattern s = p"
proof -
  from assms have len: "length p = 7" and el: "set p \<subseteq> {CHR ''0'', CHR ''1''}"
    by (auto simp: patterns7_def)
  from len obtain a b c d e f g where p: "p = [a, b, c, d, e, f, g]"
    by (auto simp: length_Suc_conv eval_nat_numeral)
  let ?s = "\<lparr>seg_a = (a = CHR ''1''), seg_b = (b = CHR ''1''), seg_c = (c = CHR ''1''),
             seg_d = (d = CHR ''1''), seg_e = (e = CHR ''1''), seg_f = (f = CHR ''1''),
             seg_g = (g = CHR ''1'')\<rparr>"
  have bc: "bitChar (x = CHR ''1'') = x" if "x \<in> set p" for x
    using that el by (auto simp: bitChar_def)
  have "segPattern ?s = p" unfolding segPattern_expand by (simp add: bc p)
  then show ?thesis ..
qed

lemma bitChar_inj: "bitChar u = bitChar v \<longleftrightarrow> u = v"
  by (simp add: bitChar_def)

lemma segPattern_inj: "segPattern s = segPattern t \<Longrightarrow> s = (t::SegmentState)"
  by (simp add: segPattern_expand bitChar_inj)

lemma unknown_states_image:
  "segPattern ` {s. segmentsToDigit s = ''?''} = patterns7 - fst ` set digitPatterns"
proof (intro equalityI subsetI)
  fix p assume "p \<in> segPattern ` {s. segmentsToDigit s = ''?''}"
  then show "p \<in> patterns7 - fst ` set digitPatterns"
    using segPattern_in by (auto simp: segmentsToDigit_unknown)
next
  fix p assume p: "p \<in> patterns7 - fst ` set digitPatterns"
  then obtain s where "segPattern s = p" using segPattern_surj by blast
  with p show "p \<in> segPattern ` {s. segmentsToDigit s = ''?''}"
    by (auto simp: segmentsToDigit_unknown image_iff)
qed

lemma card_unknown_states: "card {s. segmentsToDigit s = ''?''} = 111"
proof -
  have "inj_on segPattern {s. segmentsToDigit s = ''?''}"
    by (rule inj_onI) (rule segPattern_inj)
  then have "card (segPattern ` {s. segmentsToDigit s = ''?''})
               = card {s. segmentsToDigit s = ''?''}"
    by (rule card_image)
  then show ?thesis by (simp add: unknown_states_image card_unmapped)
qed

text \<open>
  Claim C3. \<open>segmentsToDigit\<close> is total and pure: for every \<open>SegmentState\<close> it joins the
  segments in the order a, b, c, d, e, f, g into a string of seven characters \<open>1\<close> and
  \<open>0\<close> and returns exactly one character: the entry of the table for the 17 known
  patterns (digits 0 to 9, the letters A, b, C, d, E, F and the blank, under distinct
  keys), and \<open>?\<close> for every other pattern, of which there are \<open>2^7 - 17\<close>. All segments
  off give a blank, all segments on give \<open>8\<close>.
\<close>

theorem segmentsToDigit_total:
  "length (segmentsToDigit s) = 1 \<and>
   segPattern s = [bitChar (seg_a s), bitChar (seg_b s), bitChar (seg_c s), bitChar (seg_d s),
                   bitChar (seg_e s), bitChar (seg_f s), bitChar (seg_g s)] \<and>
   segmentsToDigit s =
     (case map_of digitPatterns (segPattern s) of None \<Rightarrow> ''?'' | Some v \<Rightarrow> v) \<and>
   (segmentsToDigit s = ''?'') = (segPattern s \<notin> fst ` set digitPatterns) \<and>
   length digitPatterns = 17 \<and> distinct (map fst digitPatterns) \<and>
   concat (map snd digitPatterns) = ''0123456789AbCdEF '' \<and>
   segmentsToDigit allOff = '' '' \<and> segmentsToDigit allOn = ''8'' \<and>
   card {t. segmentsToDigit t = ''?''} = 2 ^ 7 - 17"
proof -
  have "length digitPatterns = 17" by (simp add: digitPatterns_def)
  moreover have "concat (map snd digitPatterns) = ''0123456789AbCdEF ''"
    by (simp add: digitPatterns_def)
  moreover have "segmentsToDigit allOff = '' ''"
    by (simp add: segmentsToDigit_def allOff_def segPattern_expand bitChar_def digitPatterns_def)
  moreover have "segmentsToDigit allOn = ''8''"
    by (simp add: segmentsToDigit_def allOn_def segPattern_expand bitChar_def digitPatterns_def)
  moreover have "card {t. segmentsToDigit t = ''?''} = 2 ^ 7 - 17"
    by (simp add: card_unknown_states)
  ultimately show ?thesis
    using segmentsToDigit_length segPattern_expand segmentsToDigit_lookup
      segmentsToDigit_unknown distinct_digit_keys
    by blast
qed

theorem segmentsToDigit_total_witness:
  "segmentsToDigit \<lparr>seg_a = True, seg_b = True, seg_c = True, seg_d = True, seg_e = True,
                    seg_f = True, seg_g = False\<rparr> = ''0'' \<and>
   segmentsToDigit \<lparr>seg_a = True, seg_b = False, seg_c = False, seg_d = False, seg_e = False,
                    seg_f = False, seg_g = False\<rparr> = ''?''"
proof -
  let ?zero = "\<lparr>seg_a = True, seg_b = True, seg_c = True, seg_d = True, seg_e = True,
                seg_f = True, seg_g = False\<rparr>"
  let ?odd = "\<lparr>seg_a = True, seg_b = False, seg_c = False, seg_d = False, seg_e = False,
               seg_f = False, seg_g = False\<rparr>"
  have "segmentsToDigit ?zero = ''0''"
    using segmentsToDigit_total [of ?zero] by (simp add: bitChar_def digitPatterns_def)
  moreover have "segmentsToDigit ?odd = ''?''"
    using segmentsToDigit_total [of ?odd] by (simp add: bitChar_def digitPatterns_def)
  ultimately show ?thesis by simp
qed

section \<open>The reading value normalizer\<close>

lemma js_split_nonempty: "js_split sep s \<noteq> []"
  by (induction s) auto

lemma length_js_split: "length (js_split sep s) = count_list s sep + 1"
  by (induction s) (auto simp: js_split_nonempty)

lemma hd_js_split: "hd (js_split sep s) = takeWhile (\<lambda>c. c \<noteq> sep) s"
  by (induction s) auto

lemma concat_js_split: "concat (js_split sep s) = filter (\<lambda>c. c \<noteq> sep) s"
proof (induction s)
  case Nil
  show ?case by simp
next
  case (Cons c cs)
  obtain p ps where "js_split sep cs = p # ps"
    using js_split_nonempty[of sep cs] by (cases "js_split sep cs") auto
  with Cons show ?case by auto
qed

lemma concat_tl_js_split:
  "concat (tl (js_split sep s)) = filter (\<lambda>c. c \<noteq> sep) (dropWhile (\<lambda>c. c \<noteq> sep) s)"
proof (induction s)
  case Nil
  show ?case by simp
next
  case (Cons c cs)
  show ?case
  proof (cases "c = sep")
    case True
    then show ?thesis by (simp add: concat_js_split)
  next
    case False
    with Cons show ?thesis by simp
  qed
qed

lemma js_join_Nil: "js_join [] ps = concat ps"
  by (induction "[]::'a list" ps rule: js_join.induct) auto

lemma formatReadingValue_eq_spec: "formatReadingValue x = normalize_spec x"
proof (cases "x = []")
  case True
  then show ?thesis
    by (simp add: formatReadingValue_def normalize_spec_def keepFirstDot_def
        leadingDot_def trailingDot_def)
next
  case False
  then show ?thesis
    by (simp add: formatReadingValue_def normalize_spec_def keepFirstDot_def Let_def
        length_js_split hd_js_split js_join_Nil concat_tl_js_split)
qed

text \<open>
  Claim C8. For every input string \<open>formatReadingValue\<close> is the normalizer of the
  specification: it strips every character but digits, \<open>.\<close> and \<open>-\<close>; of several dots it
  keeps the first and appends the remaining fragments; a leading \<open>.\<close> becomes \<open>0.\<close>; a
  trailing \<open>.\<close> is dropped; and an empty result, \<open>-\<close> or \<open>.\<close> becomes \<open>0\<close>. In particular
  the empty string, \<open>.\<close> and \<open>-\<close> give \<open>0\<close>, \<open>1.2.3\<close> gives \<open>1.23\<close> and \<open>.5\<close> gives \<open>0.5\<close>.
\<close>

theorem formatReadingValue_normalizes:
  "formatReadingValue x = normalize_spec x \<and>
   formatReadingValue [] = ''0'' \<and>
   formatReadingValue ''.'' = ''0'' \<and>
   formatReadingValue ''-'' = ''0'' \<and>
   formatReadingValue ''1.2.3'' = ''1.23'' \<and>
   formatReadingValue ''.5'' = ''0.5''"
proof -
  have "formatReadingValue [] = ''0''"
    and "formatReadingValue ''.'' = ''0''"
    and "formatReadingValue ''-'' = ''0''"
    and "formatReadingValue ''1.2.3'' = ''1.23''"
    and "formatReadingValue ''.5'' = ''0.5''"
    by (simp_all add: formatReadingValue_def leadingDot_def trailingDot_def keptChar_def
        isDigit_def)
  then show ?thesis using formatReadingValue_eq_spec by blast
qed

theorem formatReadingValue_normalizes_witness:
  "formatReadingValue ''ab-1..2x.'' = ''-1.2'' \<and> normalize_spec ''ab-1..2x.'' = ''-1.2''"
proof -
  have "normalize_spec ''ab-1..2x.'' = ''-1.2''"
    by (simp add: normalize_spec_def keepFirstDot_def leadingDot_def trailingDot_def
        keptChar_def isDigit_def)
  then show ?thesis using formatReadingValue_normalizes [of "''ab-1..2x.''"] by simp
qed

lemma count_takeWhile: "count_list (takeWhile (\<lambda>c. c \<noteq> a) s) a = 0"
  by (induction s) auto

lemma count_filter_neq: "count_list (filter (\<lambda>c. c \<noteq> a) s) a = 0"
  by (induction s) auto

lemma keepFirstDot_count: "count_list (keepFirstDot s) (CHR ''.'') \<le> 1"
  by (simp add: keepFirstDot_def count_takeWhile count_filter_neq)

lemma keepFirstDot_set: "set (keepFirstDot s) \<subseteq> set s \<union> {CHR ''.''}"
  by (auto simp: keepFirstDot_def dest: set_takeWhileD set_dropWhileD)

lemma keepFirstDot_kept:
  "\<forall>c\<in>set s. keptChar c \<Longrightarrow> \<forall>c\<in>set (keepFirstDot s). keptChar c"
  using keepFirstDot_set[of s] by (auto simp: keptChar_def)

lemma keptChar_zero: "keptChar (CHR ''0'')"
  by (simp add: keptChar_def isDigit_def)

lemma leadingDot_set: "set (leadingDot s) \<subseteq> set s \<union> {CHR ''0''}"
  by (cases s) (auto simp: leadingDot_def)

lemma leadingDot_kept:
  "\<forall>c\<in>set s. keptChar c \<Longrightarrow> \<forall>c\<in>set (leadingDot s). keptChar c"
  using leadingDot_set[of s] keptChar_zero by auto

lemma leadingDot_count: "count_list (leadingDot s) (CHR ''.'') = count_list s (CHR ''.'')"
  by (auto simp: leadingDot_def split: list.splits)

lemma leadingDot_hd: "leadingDot s \<noteq> [] \<Longrightarrow> hd (leadingDot s) \<noteq> CHR ''.''"
  by (auto simp: leadingDot_def split: list.splits if_splits)

lemma trailingDot_kept:
  "\<forall>c\<in>set s. keptChar c \<Longrightarrow> \<forall>c\<in>set (trailingDot s). keptChar c"
  by (auto simp: trailingDot_def dest: in_set_butlastD)

lemma count_butlast:
  "s \<noteq> [] \<Longrightarrow> count_list s a = count_list (butlast s) a + (if last s = a then 1 else 0)"
  by (induction s) auto

lemma trailingDot_count: "count_list (trailingDot s) a \<le> count_list s a"
  by (auto simp: trailingDot_def count_butlast[of s a])

lemma count0_last: "count_list s a = 0 \<Longrightarrow> s \<noteq> [] \<Longrightarrow> last s \<noteq> a"
  by (induction s) (auto split: if_splits)

lemma trailingDot_last:
  "count_list s (CHR ''.'') \<le> 1 \<Longrightarrow> trailingDot s \<noteq> [] \<Longrightarrow> last (trailingDot s) \<noteq> CHR ''.''"
  using count_butlast[of s "CHR ''.''"] count0_last[of "butlast s" "CHR ''.''"]
  by (auto simp: trailingDot_def split: if_splits)

lemma trailingDot_hd:
  "s \<noteq> [] \<Longrightarrow> hd s \<noteq> CHR ''.'' \<Longrightarrow> trailingDot s \<noteq> [] \<Longrightarrow> hd (trailingDot s) \<noteq> CHR ''.''"
  by (cases s) (auto simp: trailingDot_def split: if_splits)

lemma normalize_spec_canonical: "canonical (normalize_spec x)"
proof -
  define C where "C = leadingDot (keepFirstDot (filter keptChar x))"
  define D where "D = trailingDot C"
  have kC: "\<forall>c\<in>set C. keptChar c"
    unfolding C_def by (intro leadingDot_kept keepFirstDot_kept) simp
  then have k: "\<forall>c\<in>set D. keptChar c"
    unfolding D_def by (rule trailingDot_kept)
  have cC: "count_list C (CHR ''.'') \<le> 1"
    unfolding C_def leadingDot_count by (rule keepFirstDot_count)
  have cD: "count_list D (CHR ''.'') \<le> 1"
    using trailingDot_count[of C "CHR ''.''"] cC unfolding D_def by linarith
  have l: "D \<noteq> [] \<Longrightarrow> last D \<noteq> CHR ''.''"
    unfolding D_def using trailingDot_last[OF cC] .
  have h: "D \<noteq> [] \<Longrightarrow> hd D \<noteq> CHR ''.''"
  proof -
    assume d: "D \<noteq> []"
    then have c: "C \<noteq> []" by (auto simp: D_def trailingDot_def)
    have "hd C \<noteq> CHR ''.''" using c unfolding C_def by (rule leadingDot_hd)
    from trailingDot_hd[OF c this] d show ?thesis unfolding D_def by blast
  qed
  have ns: "normalize_spec x = (if D = [] \<or> D = ''-'' \<or> D = ''.'' then ''0'' else D)"
    unfolding normalize_spec_def D_def C_def Let_def ..
  show ?thesis
  proof (cases "D = [] \<or> D = ''-'' \<or> D = ''.''")
    case True
    then have "normalize_spec x = ''0''" unfolding ns by simp
    then show ?thesis by (simp add: canonical_def keptChar_zero)
  next
    case False
    then have "normalize_spec x = D" unfolding ns by simp
    with False k cD l h show ?thesis unfolding canonical_def by blast
  qed
qed

lemma canonical_fixed:
  assumes "canonical y"
  shows "normalize_spec y = y"
proof -
  from assms have k: "filter keptChar y = y" by (auto simp: canonical_def)
  from assms have "keepFirstDot y = y" by (simp add: keepFirstDot_def canonical_def)
  moreover from assms have "leadingDot y = y"
    by (cases y) (auto simp: leadingDot_def canonical_def)
  moreover from assms have "trailingDot y = y" by (auto simp: trailingDot_def canonical_def)
  moreover from assms have "y \<noteq> [] \<and> y \<noteq> ''-'' \<and> y \<noteq> ''.''" by (auto simp: canonical_def)
  ultimately show ?thesis using k by (simp add: normalize_spec_def Let_def)
qed

text \<open>
  Claim C9. The normalizer is idempotent: for every input string \<open>x\<close>, normalizing the
  normalized value gives the normalized value.
\<close>

theorem formatReadingValue_idempotent:
  "formatReadingValue (formatReadingValue x) = formatReadingValue x"
  by (simp add: formatReadingValue_eq_spec canonical_fixed normalize_spec_canonical)

theorem formatReadingValue_idempotent_witness:
  "formatReadingValue (formatReadingValue ''1.2.3'') = ''1.23''"
proof -
  have "formatReadingValue ''1.2.3'' = ''1.23''"
    by (simp add: formatReadingValue_def leadingDot_def trailingDot_def keptChar_def
        isDigit_def)
  then show ?thesis using formatReadingValue_idempotent [of "''1.2.3''"] by simp
qed

section \<open>Rounding to the nearest double\<close>

text \<open>
  \<open>ilog2\<close> is the binary exponent, so \<open>dbl\<close> rounds the significand to 53 bits; it is
  monotone, and it is evaluated at a given exponent and significand by \<open>dbl_at\<close>.
\<close>

lemma two_powi_pos: "(0::rat) < 2 powi k"
  by (simp add: power_int_def)

lemma two_powi_mono: "j \<le> k \<Longrightarrow> (2::rat) powi j \<le> 2 powi k"
  by (rule power_int_increasing) simp_all

lemma two_powi_nat: "0 \<le> k \<Longrightarrow> (2::rat) powi k = 2 ^ nat k"
  by (simp add: power_int_def)

lemma bitlen_rat_bounds:
  assumes "0 < n"
  shows "(2::rat) powi (bitlen n - 1) \<le> of_int n" and "of_int n < (2::rat) powi (bitlen n)"
proof -
  from assms have b1: "1 \<le> bitlen n" using bitlen_eq_zero_iff[of n] bitlen_nonneg[of n] by linarith
  from bitlen_bounds[OF assms] have lo: "2 ^ nat (bitlen n - 1) \<le> n" and hi: "n < 2 ^ nat (bitlen n)" by auto
  have "(of_int (2 ^ nat (bitlen n - 1)) :: rat) \<le> of_int n" using lo by (simp only: of_int_le_iff)
  then show "(2::rat) powi (bitlen n - 1) \<le> of_int n" using b1 by (simp add: two_powi_nat)
  have "(of_int n :: rat) < of_int (2 ^ nat (bitlen n))" using hi by (simp only: of_int_less_iff)
  then show "of_int n < (2::rat) powi (bitlen n)" using b1 by (simp add: two_powi_nat)
qed

lemma ilog2_bounds:
  assumes "0 < q"
  shows "2 powi (ilog2 q) \<le> q" and "q < 2 powi (ilog2 q + 1)"
proof -
  define n where "n = fst (quotient_of q)"
  define d where "d = snd (quotient_of q)"
  have qo: "quotient_of q = (n, d)" by (simp add: n_def d_def)
  have dpos: "0 < d" using quotient_of_denom_pos[OF qo] .
  have q: "q = of_int n / of_int d" using quotient_of_div[OF qo] .
  have npos: "0 < n" using assms dpos unfolding q by (simp add: zero_less_divide_iff)
  define t where "t = bitlen n - bitlen d"
  have il: "ilog2 q = (if 2 powi t \<le> q then t else t - 1)"
    by (simp add: ilog2_def Let_def t_def n_def d_def)
  have Dpos: "(0::rat) < of_int d" using dpos by simp
  have up: "q < 2 powi (t + 1)"
  proof -
    have "of_int n < (2::rat) powi (bitlen n)" using bitlen_rat_bounds(2)[OF npos] .
    also have "\<dots> = 2 powi (t + 1) * 2 powi (bitlen d - 1)"
      by (simp add: t_def power_int_add[symmetric])
    also have "\<dots> \<le> 2 powi (t + 1) * of_int d"
      using bitlen_rat_bounds(1)[OF dpos] two_powi_pos[of "t + 1"] by (simp add: mult_left_mono)
    finally show ?thesis unfolding q using Dpos by (simp add: pos_divide_less_eq)
  qed
  have lo: "2 powi (t - 1) \<le> q"
  proof -
    have "2 powi (t - 1) * of_int d \<le> 2 powi (t - 1) * (2::rat) powi (bitlen d)"
      using bitlen_rat_bounds(2)[OF dpos] two_powi_pos[of "t - 1"] by (simp add: mult_left_mono)
    also have "\<dots> = 2 powi (bitlen n - 1)"
      by (simp add: t_def power_int_add[symmetric])
    also have "\<dots> \<le> of_int n" using bitlen_rat_bounds(1)[OF npos] .
    finally show ?thesis unfolding q using Dpos by (simp add: pos_le_divide_eq)
  qed
  show "2 powi (ilog2 q) \<le> q" using lo by (simp add: il)
  show "q < 2 powi (ilog2 q + 1)" using up by (auto simp: il not_le)
qed

lemma ilog2_unique:
  assumes "2 powi e \<le> q" and "q < 2 powi (e + 1)"
  shows "ilog2 q = e"
proof -
  have qpos: "0 < q" using two_powi_pos[of e] assms(1) by linarith
  note b = ilog2_bounds[OF qpos]
  have "\<not> ilog2 q < e"
  proof
    assume "ilog2 q < e"
    then have "(2::rat) powi (ilog2 q + 1) \<le> 2 powi e" by (intro two_powi_mono) simp
    with b(2) assms(1) show False by linarith
  qed
  moreover have "\<not> e < ilog2 q"
  proof
    assume "e < ilog2 q"
    then have "(2::rat) powi (e + 1) \<le> 2 powi (ilog2 q)" by (intro two_powi_mono) simp
    with b(1) assms(2) show False by linarith
  qed
  ultimately show ?thesis by linarith
qed

lemma dbl_eval:
  assumes "2 powi e \<le> q" and "q < 2 powi (e + 1)"
  shows "dbl q = of_int (roundEven (q / 2 powi (e - 52))) * 2 powi (e - 52)"
proof -
  have qpos: "0 < q" using two_powi_pos[of e] assms(1) by linarith
  then have "\<bar>q\<bar> = q" by simp
  with qpos show ?thesis by (simp add: dbl_def Let_def ilog2_unique[OF assms])
qed

lemma roundEven_int: "roundEven (of_int n) = n"
  by (simp add: roundEven_def)

lemma roundEven_bounds: "\<lfloor>x\<rfloor> \<le> roundEven x" "roundEven x \<le> \<lfloor>x\<rfloor> + 1"
  by (auto simp: roundEven_def Let_def)

lemma roundEven_mono: assumes "x \<le> y" shows "roundEven x \<le> roundEven y"
proof -
  have fl: "\<lfloor>x\<rfloor> \<le> \<lfloor>y\<rfloor>" using assms by (rule floor_mono)
  show ?thesis
  proof (cases "\<lfloor>x\<rfloor> = \<lfloor>y\<rfloor>")
    case True
    then have "x - of_int \<lfloor>x\<rfloor> \<le> y - of_int \<lfloor>y\<rfloor>" using assms by simp
    with True show ?thesis by (auto simp: roundEven_def Let_def)
  next
    case False
    with fl have "\<lfloor>x\<rfloor> + 1 \<le> \<lfloor>y\<rfloor>" by linarith
    with roundEven_bounds(2)[of x] roundEven_bounds(1)[of y] show ?thesis by linarith
  qed
qed

lemma dbl_range:
  assumes "0 < q"
  shows "2 powi (ilog2 q) \<le> dbl q" and "dbl q \<le> 2 powi (ilog2 q + 1)"
proof -
  define e where "e = ilog2 q"
  define u where "u = (2::rat) powi (e - 52)"
  have upos: "0 < u" by (simp add: u_def two_powi_pos)
  note b = ilog2_bounds[OF assms, folded e_def]
  have d: "dbl q = of_int (roundEven (q / u)) * u"
    using dbl_eval[OF b] by (simp add: u_def)
  have lo_s: "of_int ((2::int) ^ 52) = 2 powi e / u"
    by (simp add: u_def power_int_diff two_powi_nat)
  have hi_s: "of_int ((2::int) ^ 53) = 2 powi (e + 1) / u"
    by (simp add: u_def power_int_diff power_int_add two_powi_nat)
  have "roundEven (of_int ((2::int) ^ 52)) \<le> roundEven (q / u)"
    unfolding lo_s using b(1) upos by (intro roundEven_mono) (simp add: divide_right_mono)
  then have "(2::int) ^ 52 \<le> roundEven (q / u)" by (simp only: roundEven_int)
  then have "(of_int ((2::int) ^ 52) :: rat) \<le> of_int (roundEven (q / u))" by (simp only: of_int_le_iff)
  then have "2 powi e / u \<le> of_int (roundEven (q / u))" unfolding lo_s .
  then have "2 powi e \<le> of_int (roundEven (q / u)) * u" using upos by (simp only: pos_divide_le_eq)
  then show "2 powi (ilog2 q) \<le> dbl q" by (simp only: d e_def)
  have "roundEven (q / u) \<le> roundEven (of_int ((2::int) ^ 53))"
    unfolding hi_s using b(2) upos by (intro roundEven_mono) (simp add: divide_right_mono)
  then have "roundEven (q / u) \<le> (2::int) ^ 53" by (simp only: roundEven_int)
  then have "(of_int (roundEven (q / u)) :: rat) \<le> of_int ((2::int) ^ 53)" by (simp only: of_int_le_iff)
  then have "of_int (roundEven (q / u)) \<le> 2 powi (e + 1) / u" unfolding hi_s .
  then have "of_int (roundEven (q / u)) * u \<le> 2 powi (e + 1)" using upos by (simp only: pos_le_divide_eq)
  then show "dbl q \<le> 2 powi (ilog2 q + 1)" by (simp only: d e_def)
qed

lemma ilog2_mono: assumes "0 < p" "p \<le> q" shows "ilog2 p \<le> ilog2 q"
proof (rule ccontr)
  assume "\<not> ilog2 p \<le> ilog2 q"
  then have "ilog2 q + 1 \<le> ilog2 p" by simp
  then have "(2::rat) powi (ilog2 q + 1) \<le> 2 powi (ilog2 p)" by (rule two_powi_mono)
  moreover have "0 < q" using assms by linarith
  ultimately show False using ilog2_bounds(1)[OF assms(1)] ilog2_bounds(2)[OF \<open>0 < q\<close>] assms(2) by linarith
qed

lemma dbl_mono_pos: assumes "0 < p" "p \<le> q" shows "dbl p \<le> dbl q"
proof -
  have qpos: "0 < q" using assms by linarith
  show ?thesis
  proof (cases "ilog2 p = ilog2 q")
    case True
    define u where "u = (2::rat) powi (ilog2 q - 52)"
    have upos: "0 < u" by (simp add: u_def two_powi_pos)
    have dp: "dbl p = of_int (roundEven (p / u)) * u"
      using dbl_eval[OF ilog2_bounds[OF assms(1)]] by (simp add: u_def True)
    have dq: "dbl q = of_int (roundEven (q / u)) * u"
      using dbl_eval[OF ilog2_bounds[OF qpos]] by (simp add: u_def)
    have "roundEven (p / u) \<le> roundEven (q / u)"
      using assms(2) upos by (intro roundEven_mono) (simp add: divide_right_mono)
    then have "(of_int (roundEven (p / u)) :: rat) \<le> of_int (roundEven (q / u))" by (simp only: of_int_le_iff)
    then show ?thesis unfolding dp dq using upos by (simp add: mult_right_mono)
  next
    case False
    with ilog2_mono[OF assms] have "ilog2 p + 1 \<le> ilog2 q" by linarith
    then have "(2::rat) powi (ilog2 p + 1) \<le> 2 powi (ilog2 q)" by (rule two_powi_mono)
    with dbl_range(2)[OF assms(1)] dbl_range(1)[OF qpos] show ?thesis by linarith
  qed
qed

lemma dbl_pos: "0 < q \<Longrightarrow> 0 < dbl q"
  using dbl_range(1)[of q] two_powi_pos[of "ilog2 q"] by linarith

lemma roundEven_neg: "x \<le> 0 \<Longrightarrow> roundEven x \<le> 0"
  using roundEven_mono[of x 0] roundEven_int[of 0] by simp

lemma dbl_nonpos: assumes "q \<le> 0" shows "dbl q \<le> 0"
proof (cases "q = 0")
  case True then show ?thesis by (simp add: dbl_def)
next
  case False
  define u where "u = (2::rat) powi (ilog2 \<bar>q\<bar> - 52)"
  have upos: "0 < u" by (simp add: u_def two_powi_pos)
  have "q / u \<le> 0" using assms upos by (simp add: divide_le_0_iff)
  then have "roundEven (q / u) \<le> 0" by (rule roundEven_neg)
  then have "(of_int (roundEven (q / u)) :: rat) \<le> 0" by simp
  then have "of_int (roundEven (q / u)) * u \<le> 0" using upos by (simp add: mult_le_0_iff)
  with False show ?thesis by (simp add: dbl_def Let_def u_def)
qed


lemma roundEven_near:
  assumes "of_int m - 1 / 2 < x" and "x < of_int m + 1 / 2"
  shows "roundEven x = m"
proof -
  have "\<lfloor>x\<rfloor> = m \<or> \<lfloor>x\<rfloor> = m - 1" using assms by linarith
  then show ?thesis
  proof
    assume f: "\<lfloor>x\<rfloor> = m"
    then have "x - of_int \<lfloor>x\<rfloor> < 1 / 2" using assms by simp
    then show ?thesis by (simp add: roundEven_def Let_def f)
  next
    assume f: "\<lfloor>x\<rfloor> = m - 1"
    then have "1 / 2 < x - of_int \<lfloor>x\<rfloor>" using assms by simp
    then show ?thesis by (simp add: roundEven_def Let_def f)
  qed
qed

lemma dbl_at:
  assumes "2 powi e \<le> q" and "q < 2 powi (e + 1)"
    and "of_int m - 1 / 2 < q / 2 powi (e - 52)" and "q / 2 powi (e - 52) < of_int m + 1 / 2"
  shows "dbl q = of_int m * 2 powi (e - 52)"
  using dbl_eval[OF assms(1,2)] roundEven_near[OF assms(3,4)] by simp

text \<open>
  The doubles of the literals \<open>1.2\<close>, \<open>3.0\<close> and \<open>0.3\<close> and their neighbours, and the
  transfer of a comparison of doubles to the exact comparison when no value lies in the
  gap between the literal and the neighbouring double.
\<close>

lemma dbl_one: "dbl 1 = 1"
  by (rule dbl_at[where e=0 and m="2^52", THEN trans]) (simp_all add: power_int_minus)

lemma dbl_three: "dbl 3 = 3"
  by (rule dbl_at[where e=1 and m="3 * 2^51", THEN trans]) (simp_all add: power_int_minus)

lemma dbl_below_three: "dbl (3 - 1 / 2 ^ 51) = 3 - 1 / 2 ^ 51"
  by (rule dbl_at[where e=1 and m="3 * 2^51 - 1", THEN trans]) (simp_all add: power_int_minus)

lemma dbl_6_5: "dbl (12 / 10) = 5404319552844595 / 2 ^ 52"
  by (rule dbl_at[where e=0 and m=5404319552844595, THEN trans]) (simp_all add: power_int_minus)

lemma dbl_above_6_5: "dbl (5404319552844596 / 2 ^ 52) = 5404319552844596 / 2 ^ 52"
  by (rule dbl_at[where e=0 and m=5404319552844596, THEN trans]) (simp_all add: power_int_minus)

lemma dbl_3_10: "dbl (3 / 10) = 5404319552844595 / 2 ^ 54"
  by (rule dbl_at[where e="-2" and m=5404319552844595, THEN trans]) (simp_all add: power_int_minus)

lemma dbl_above_3_10: "dbl (5404319552844596 / 2 ^ 54) = 5404319552844596 / 2 ^ 54"
  by (rule dbl_at[where e="-2" and m=5404319552844596, THEN trans]) (simp_all add: power_int_minus)

lemma dbl_gt_iff:
  assumes c: "0 < c" "dbl c = c0" and c1: "dbl c1 = c1" "c0 < c1" "c < c1"
    and gap: "q \<le> c \<or> c1 \<le> q"
  shows "dbl q > c0 \<longleftrightarrow> q > c"
proof (cases "q \<le> c")
  case True
  have "dbl q \<le> c0"
  proof (cases "0 < q")
    case True
    with \<open>q \<le> c\<close> show ?thesis using dbl_mono_pos[of q c] c(2) by simp
  next
    case False
    then have "dbl q \<le> 0" by (intro dbl_nonpos) simp
    moreover have "0 < c0" using dbl_pos[OF c(1)] c(2) by simp
    ultimately show ?thesis by linarith
  qed
  with True show ?thesis by auto
next
  case False
  with gap have g: "c1 \<le> q" by simp
  have "0 < c1" using c(1) c1(3) by linarith
  then have "dbl c1 \<le> dbl q" using g by (rule dbl_mono_pos)
  with c1 False show ?thesis by auto
qed

lemma dbl_lt_iff:
  assumes c: "dbl c = c" and c1: "0 < c1" "dbl c1 = c1" "c1 < c"
    and gap: "q \<le> c1 \<or> c \<le> q"
  shows "dbl q < c \<longleftrightarrow> q < c"
proof (cases "c \<le> q")
  case True
  have "0 < c" using c1 by linarith
  then have "dbl c \<le> dbl q" using True by (rule dbl_mono_pos)
  with c True show ?thesis by auto
next
  case False
  with gap have g: "q \<le> c1" by simp
  have "dbl q \<le> c1"
  proof (cases "0 < q")
    case True
    with g show ?thesis using dbl_mono_pos[of q c1] c1(2) by simp
  next
    case False
    then have "dbl q \<le> 0" by (intro dbl_nonpos) simp
    with c1(1) show ?thesis by linarith
  qed
  with c1(3) \<open>\<not> c \<le> q\<close> show ?thesis by auto
qed

lemma gap_6_5:
  assumes "0 < b" "b < 50000"
  shows "of_int a / of_int b \<le> (12 / 10 :: rat) \<or> 5404319552844596 / 2 ^ 52 \<le> (of_int a / of_int b :: rat)"
proof (cases "5 * a \<le> 6 * b")
  case True
  then have "(of_int (5 * a) :: rat) \<le> of_int (6 * b)" by (simp only: of_int_le_iff)
  then show ?thesis using assms(1) by (simp add: pos_divide_le_eq)
next
  case False
  then have "5404319552844596 * b \<le> a * 2 ^ 52" using assms by simp
  then have "(of_int (5404319552844596 * b) :: rat) \<le> of_int (a * 2 ^ 52)" by (simp only: of_int_le_iff)
  then have "5404319552844596 / 2 ^ 52 \<le> (of_int a / of_int b :: rat)"
    using assms(1) by (simp add: pos_le_divide_eq pos_divide_le_eq)
  then show ?thesis ..
qed

lemma gap_3:
  assumes "0 < b" "b < 50000"
  shows "(of_int a / of_int b :: rat) \<le> 3 - 1 / 2 ^ 51 \<or> 3 \<le> (of_int a / of_int b :: rat)"
proof (cases "3 * b \<le> a")
  case True
  then have "(of_int (3 * b) :: rat) \<le> of_int a" by (simp only: of_int_le_iff)
  then show ?thesis using assms(1) by (simp add: pos_le_divide_eq)
next
  case False
  then have "a * 2 ^ 51 \<le> (3 * 2 ^ 51 - 1) * b" using assms by simp
  then have "(of_int (a * 2 ^ 51) :: rat) \<le> of_int ((3 * 2 ^ 51 - 1) * b)" by (simp only: of_int_le_iff)
  then have "(of_int a / of_int b :: rat) \<le> 3 - 1 / 2 ^ 51"
    using assms(1) by (simp add: pos_divide_le_eq field_simps)
  then show ?thesis ..
qed

lemma gap_3_10:
  assumes "0 < n" "n \<le> 2 ^ 51"
  shows "(of_nat k / of_int n :: rat) \<le> 3 / 10 \<or> 5404319552844596 / 2 ^ 54 \<le> (of_nat k / of_int n :: rat)"
proof (cases "10 * int k \<le> 3 * n")
  case True
  then have "(of_int (10 * int k) :: rat) \<le> of_int (3 * n)" by (simp only: of_int_le_iff)
  then show ?thesis using assms(1) by (simp add: pos_divide_le_eq)
next
  case False
  then have "5404319552844596 * n \<le> int k * 2 ^ 54" using assms by simp
  then have "(of_int (5404319552844596 * n) :: rat) \<le> of_int (int k * 2 ^ 54)" by (simp only: of_int_le_iff)
  then have "5404319552844596 / 2 ^ 54 \<le> (of_nat k / of_int n :: rat)"
    using assms(1) by (simp add: pos_le_divide_eq pos_divide_le_eq)
  then show ?thesis ..
qed

lemma roundEven_tie:
  assumes "x = of_int f + 1 / 2"
  shows "roundEven x = (if even f then f else f + 1)"
proof -
  have "\<lfloor>x\<rfloor> = f" unfolding assms by linarith
  moreover have "x - of_int f = 1 / 2" using assms by simp
  ultimately show ?thesis by (simp add: roundEven_def Let_def)
qed

lemma dbl_at_tie:
  assumes "2 powi e \<le> q" and "q < 2 powi (e + 1)"
    and "q / 2 powi (e - 52) = of_int f + 1 / 2"
  shows "dbl q = of_int (if even f then f else f + 1) * 2 powi (e - 52)"
  using dbl_eval[OF assms(1,2)] roundEven_tie[OF assms(3)] by simp

text \<open>
  The error of one rounding is at most \<open>2^-53\<close> of the value. So the floor of the double
  product of the double of a number of hundredths and an extent below \<open>2^31\<close> is the
  exact floor, or one below it where the exact product is a whole number.
\<close>

lemma roundEven_error: "\<bar>of_int (roundEven x) - x\<bar> \<le> (1 / 2 :: rat)"
proof -
  have "of_int \<lfloor>x\<rfloor> \<le> x" "x < of_int \<lfloor>x\<rfloor> + 1" by linarith+
  then show ?thesis by (auto simp: roundEven_def Let_def)
qed

lemma dbl_error:
  assumes "0 < x"
  shows "\<bar>dbl x - x\<bar> \<le> x / 2 ^ 53"
proof -
  define e where "e = ilog2 x"
  define u where "u = (2::rat) powi (e - 52)"
  have upos: "0 < u" by (simp add: u_def two_powi_pos)
  note b = ilog2_bounds[OF assms, folded e_def]
  have d: "dbl x = of_int (roundEven (x / u)) * u"
    using dbl_eval[OF b] by (simp add: u_def)
  have "dbl x - x = (of_int (roundEven (x / u)) - x / u) * u"
    using upos by (simp add: d left_diff_distrib)
  then have "\<bar>dbl x - x\<bar> = \<bar>of_int (roundEven (x / u)) - x / u\<bar> * u"
    using upos by (simp add: abs_mult)
  also have "\<dots> \<le> (1 / 2) * u"
    using roundEven_error[of "x / u"] upos by (intro mult_right_mono) simp_all
  also have "\<dots> = 2 powi e / 2 ^ 53"
    by (simp add: u_def power_int_diff two_powi_nat)
  also have "\<dots> \<le> x / 2 ^ 53" using b(1) by (simp add: divide_right_mono)
  finally show ?thesis .
qed

lemma hundredths_gap:
  assumes "t = of_int m / (100 :: rat)" and "t \<noteq> of_int \<lfloor>t\<rfloor>"
  shows "of_int \<lfloor>t\<rfloor> + 1 / 100 \<le> t" and "t \<le> of_int \<lfloor>t\<rfloor> + 99 / 100"
proof -
  define e where "e = \<lfloor>t\<rfloor>"
  have lo: "of_int e < t" using assms(2) e_def by (metis floor_less_iff less_le of_int_floor_le order_refl)
  have hi: "t < of_int e + 1" unfolding e_def by linarith
  have "(of_int (100 * e) :: rat) < of_int m" using lo unfolding assms(1) by simp
  then have "100 * e < m" by (simp only: of_int_less_iff)
  then have "100 * e + 1 \<le> m" by simp
  then have "(of_int (100 * e + 1) :: rat) \<le> of_int m" by (simp only: of_int_le_iff)
  then have "of_int e + 1 / 100 \<le> (of_int m / 100 :: rat)" by simp
  then show "of_int \<lfloor>t\<rfloor> + 1 / 100 \<le> t" by (simp only: assms(1)[symmetric] e_def)
  have "(of_int m :: rat) < of_int (100 * e + 100)" using hi unfolding assms(1) by simp
  then have "m < 100 * e + 100" by (simp only: of_int_less_iff)
  then have "m \<le> 100 * e + 99" by simp
  then have "(of_int m :: rat) \<le> of_int (100 * e + 99)" by (simp only: of_int_le_iff)
  then have "(of_int m / 100 :: rat) \<le> of_int e + 99 / 100" by simp
  then show "t \<le> of_int \<lfloor>t\<rfloor> + 99 / 100" by (simp only: assms(1)[symmetric] e_def)
qed

lemma floor_jsMul_hundredths:
  assumes n: "0 < n" "n \<le> 2 ^ 31" and k: "0 \<le> k" "k \<le> 100"
  shows "nearFloor (of_int k / 100) n \<lfloor>jsMul (dbl (of_int k / 100)) (of_int n)\<rfloor>"
proof (cases "k = 0")
  case True
  then show ?thesis by (simp add: nearFloor_def jsMul_def dbl_def)
next
  case False
  define q :: rat where "q = of_int k / 100"
  define N :: rat where "N = of_int n"
  define t where "t = q * N"
  have qpos: "0 < q" using False k by (simp add: q_def)
  have q1: "q \<le> 1" using k by (simp add: q_def)
  have Npos: "0 < N" using n by (simp add: N_def)
  have "(of_int n :: rat) \<le> of_int (2 ^ 31)" using n(2) by (simp only: of_int_le_iff)
  then have Nle: "N \<le> 2 ^ 31" by (simp add: N_def)
  define fd where "fd = dbl q"
  have fdpos: "0 < fd" unfolding fd_def using qpos by (rule dbl_pos)
  have "\<bar>fd - q\<bar> \<le> q / 2 ^ 53" unfolding fd_def using qpos by (rule dbl_error)
  also have "\<dots> \<le> 1 / 2 ^ 53" using q1 by (simp add: divide_right_mono)
  finally have fe: "\<bar>fd - q\<bar> \<le> 1 / 2 ^ 53" .
  then have "fd - q \<le> 1 / 2 ^ 53" by (simp only: abs_le_iff)
  moreover have "(1 / 2 ^ 53 :: rat) \<le> 1" by simp
  ultimately have fd2: "fd \<le> 2" using q1 by linarith
  define x where "x = fd * N"
  have xpos: "0 < x" using fdpos Npos by (simp add: x_def)
  have "x \<le> 2 * N" unfolding x_def using fd2 Npos by (simp add: mult_right_mono)
  then have x2: "x \<le> 2 ^ 32" using Nle by simp
  define p where "p = dbl x"
  have "\<bar>p - x\<bar> \<le> x / 2 ^ 53" unfolding p_def using xpos by (rule dbl_error)
  also have "\<dots> \<le> 2 ^ 32 / 2 ^ 53" using x2 by (simp add: divide_right_mono)
  finally have pe: "\<bar>p - x\<bar> \<le> 1 / 2097152" by simp
  have "x - t = (fd - q) * N" by (simp add: x_def t_def left_diff_distrib)
  then have "\<bar>x - t\<bar> = \<bar>fd - q\<bar> * N" using Npos by (simp add: abs_mult)
  also have "\<dots> \<le> (1 / 2 ^ 53) * 2 ^ 31"
    using fe Nle Npos by (intro mult_mono) simp_all
  finally have xe: "\<bar>x - t\<bar> \<le> 1 / 4194304" by simp
  have near: "t - 1 / 100 < p" "p < t + 1 / 100" using pe xe by linarith+
  have tm: "t = of_int (k * n) / 100" by (simp add: t_def q_def N_def)
  have goal: "nearFloor q n \<lfloor>p\<rfloor>"
  proof (cases "t = of_int \<lfloor>t\<rfloor>")
    case True
    have "of_int (\<lfloor>t\<rfloor> - 1) \<le> p" "p < of_int (\<lfloor>t\<rfloor> + 1)" using near True by simp_all
    then have "\<lfloor>p\<rfloor> = \<lfloor>t\<rfloor> \<or> \<lfloor>p\<rfloor> = \<lfloor>t\<rfloor> - 1" by linarith
    with True show ?thesis unfolding nearFloor_def t_def N_def by auto
  next
    case False
    note g = hundredths_gap[OF tm False]
    have "of_int \<lfloor>t\<rfloor> \<le> p" "p < of_int \<lfloor>t\<rfloor> + 1" using near g by linarith+
    then have "\<lfloor>p\<rfloor> = \<lfloor>t\<rfloor>" by linarith
    then show ?thesis unfolding nearFloor_def t_def N_def by simp
  qed
  then show ?thesis unfolding p_def x_def fd_def q_def N_def jsMul_def .
qed

section \<open>The confidence scorer\<close>

lemma activeSegments_le: "activeSegments s \<le> 7"
proof -
  have "length (filter (\<lambda>v. v) (segValues s)) \<le> length (segValues s)"
    by (rule length_filter_le)
  then show ?thesis by (simp add: activeSegments_def segValues_def)
qed

lemma digitConfidence_spec: "n \<le> 7 \<Longrightarrow> digitConfidence n = baseConfidence_spec n"
  by (auto simp: digitConfidence_def baseConfidence_spec_def)

lemma fold_confidence:
  "fold (\<lambda>segmentState (t, v).
           (jsAdd t (digitConfidence (activeSegments segmentState)), v + 1)) segs (t0, v0)
     = (foldl jsAdd t0 (map (\<lambda>s. baseConfidence_spec (activeSegments s)) segs),
        v0 + length segs)"
  by (induction segs arbitrary: t0 v0) (simp_all add: digitConfidence_spec activeSegments_le)

lemma calculateConfidence_eq_spec: "calculateConfidence segs raw = confidence_spec segs raw"
proof (cases "segs = []")
  case True
  then show ?thesis by (simp add: calculateConfidence_def confidence_spec_def)
next
  case False
  then have pos: "0 < length segs" by simp
  have h: "fold (\<lambda>segmentState (t, v).
                   (jsAdd t (digitConfidence (activeSegments segmentState)), v + 1))
             segs (0, 0)
           = (jsSum (map (\<lambda>s. baseConfidence_spec (activeSegments s)) segs), length segs)"
    using fold_confidence[of segs 0 0] by (simp add: jsSum_def)
  show ?thesis
    unfolding calculateConfidence_def confidence_spec_def jsMean_def h
    using False pos by (simp add: Let_def)
qed

text \<open>The doubles met when the scorer runs on the examples below.\<close>

lemma cval_1: "dbl (4 / 5) = 3602879701896397 / 4503599627370496"
  by (rule dbl_at[where e="-1" and m=7205759403792794, THEN trans]) (simp_all add: power_int_minus)

lemma cval_2: "dbl (1 / 5) = 3602879701896397 / 18014398509481984"
  by (rule dbl_at[where e="-3" and m=7205759403792794, THEN trans]) (simp_all add: power_int_minus)

lemma cval_3: "dbl (3602879701896397 / 18014398509481984) = 3602879701896397 / 18014398509481984"
  by (rule dbl_at[where e="-3" and m=7205759403792794, THEN trans]) (simp_all add: power_int_minus)

lemma cval_4: "dbl (18014398509481985 / 18014398509481984) = 1"
  by (rule dbl_at[where e=0 and m=4503599627370496, THEN trans]) (simp_all add: power_int_minus)

lemma cval_5: "dbl (1 / 10) = 3602879701896397 / 36028797018963968"
  by (rule dbl_at[where e="-4" and m=7205759403792794, THEN trans]) (simp_all add: power_int_minus)

lemma cval_6: "dbl (39631676720860365 / 36028797018963968) = 2476979795053773 / 2251799813685248"
  by (rule dbl_at[where e=0 and m=4953959590107546, THEN trans]) (simp_all add: power_int_minus)

lemma cval_7: "dbl (2476979795053773 / 4503599627370496) = 2476979795053773 / 4503599627370496"
  by (rule dbl_at[where e="-1" and m=4953959590107546, THEN trans]) (simp_all add: power_int_minus)

lemma cval_8: "dbl (6 / 5) = 5404319552844595 / 4503599627370496"
  by (rule dbl_at[where e=0 and m=5404319552844595, THEN trans]) (simp_all add: power_int_minus)

lemma cval_9: "dbl (13386390338410103065273137406935 / 20282409603651670423947251286016) = 5944751508129055 / 9007199254740992"
  by (rule dbl_at[where e="-1" and m=5944751508129055, THEN trans]) (simp_all add: power_int_minus)

lemma cval_10: "dbl (7 / 10) = 3152519739159347 / 4503599627370496"
  by (rule dbl_at[where e="-1" and m=6305039478318694, THEN trans]) (simp_all add: power_int_minus)

lemma cval_11: "dbl (3152519739159347 / 4503599627370496) = 3152519739159347 / 4503599627370496"
  by (rule dbl_at[where e="-1" and m=6305039478318694, THEN trans]) (simp_all add: power_int_minus)

lemma cval_12: "dbl (5404319552844595 / 4503599627370496) = 5404319552844595 / 4503599627370496"
  by (rule dbl_at[where e=0 and m=5404319552844595, THEN trans]) (simp_all add: power_int_minus)


lemmas confidence_values = cval_1 dbl_one cval_2 cval_3 cval_4 cval_5 cval_6 cval_7 cval_8 cval_9 cval_10 cval_11 cval_12

lemma confidence_spec_examples:
  "confidence_spec [allOn, allOff] ''8 '' = 5944751508129055 / 9007199254740992"
  "confidence_spec [allOn] ''-.-'' = 3152519739159347 / 4503599627370496"
  "confidence_spec [allOn] ''8'' = 1"
  by (simp_all add: confidence_spec_def jsMean_def jsSum_def baseConfidence_spec_def
      activeSegments_def segValues_def allOn_def allOff_def jsAdd_def jsMul_def jsDiv_def
      formatReadingValue_def leadingDot_def trailingDot_def keptChar_def isDigit_def
      parseFloat_isNaN_def isAsciiSpace_def confidence_values)

text \<open>
  Claim C4. Given a sequence of \<open>SegmentState\<close>s and the raw string, \<open>calculateConfidence\<close>
  returns 0 for the empty sequence; otherwise a digit with 2 to 7 active segments counts
  \<open>0.8 + (count / 7) * 0.2\<close>, one with 1 active segment \<open>0.6\<close> and one with none \<open>0.1\<close>;
  these are averaged over the digits, and the average is multiplied by \<open>1.2\<close> and capped
  at \<open>1.0\<close> when the normalized value parses as a number, and multiplied by \<open>0.7\<close>
  otherwise. A state has at most 7 active segments, so the three cases are all there
  are. The formulas are read in JavaScript (double) arithmetic.
\<close>

theorem calculateConfidence_formula:
  "calculateConfidence segs raw = confidence_spec segs raw \<and>
   calculateConfidence [] raw = 0 \<and>
   activeSegments s \<le> 7"
  using calculateConfidence_eq_spec activeSegments_le
  by (simp add: confidence_spec_def)

theorem calculateConfidence_formula_witness:
  "calculateConfidence [allOn, allOff] ''8 '' = 5944751508129055 / 9007199254740992 \<and>
   calculateConfidence [allOn] ''-.-'' = 3152519739159347 / 4503599627370496"
  using calculateConfidence_formula [of "[allOn, allOff]" "''8 ''"]
        calculateConfidence_formula [of "[allOn]" "''-.-''"]
  by (simp add: confidence_spec_examples)

section \<open>The segment state extractor\<close>

text \<open>
  The OpenCV primitives on a region inside the image: the view of a rectangle, and the
  count of the non-zero pixels of a sub-rectangle of a view, which is their number in the
  source image.
\<close>

lemma roi_inside:
  assumes "0 \<le> rect_x r" "0 \<le> rect_y r" "0 \<le> rect_width r" "0 \<le> rect_height r"
    and "rect_x r + rect_width r \<le> int (cols m)" "rect_y r + rect_height r \<le> int (rows m)"
  shows "roi m r = Some \<lparr>rows = nat (rect_height r), cols = nat (rect_width r),
            ucharAt = (\<lambda>i j. ucharAt m (nat (rect_y r) + i) (nat (rect_x r) + j))\<rparr>"
  using assms by (simp add: roi_def)

lemma count_roi_roi:
  assumes "0 \<le> rect_x r" "0 \<le> rect_y r" "0 \<le> rect_x sr" "0 \<le> rect_y sr"
  shows "countNonZero \<lparr>rows = nat (rect_height sr), cols = nat (rect_width sr),
            ucharAt = (\<lambda>i j. ucharAt \<lparr>rows = h, cols = w,
                 ucharAt = (\<lambda>i j. ucharAt img (nat (rect_y r) + i) (nat (rect_x r) + j))\<rparr>
               (nat (rect_y sr) + i) (nat (rect_x sr) + j))\<rparr>
          = whitePixelsIn img (absRect r sr)"
  using assms
  by (simp add: countNonZero_def whitePixelsIn_def absRect_def nat_add_distrib add.assoc)

lemma area_bound:
  assumes "0 < w" "0 < h" "w \<le> int c" "h \<le> int r" "int r * int c \<le> 2 ^ 51"
  shows "0 < w * h" and "w * h \<le> 2 ^ 51"
proof -
  show "0 < w * h" using assms by simp
  have "w * h \<le> int c * int r" using assms by (intro mult_mono) simp_all
  with assms(5) show "w * h \<le> 2 ^ 51" by (simp add: mult.commute)
qed

lemma white_ratio:
  assumes "0 < n" "n \<le> 2 ^ 51"
  shows "jsDiv (of_nat k) (of_int n) > dbl (3 / 10) \<longleftrightarrow> (30 / 100 :: rat) < of_nat k / of_int n"
proof -
  have "dbl (of_nat k / of_int n) > 5404319552844595 / 2 ^ 54 \<longleftrightarrow> (of_nat k / of_int n :: rat) > 3 / 10"
    by (rule dbl_gt_iff[OF _ dbl_3_10 dbl_above_3_10 _ _ gap_3_10[OF assms]]) simp_all
  then show ?thesis by (simp add: jsDiv_def dbl_3_10)
qed

lemma forEachSegment_spec:
  assumes "\<And>pos. segmentState d r pos = Some (f pos)"
  shows "forEachSegment d r es = Some (map (\<lambda>(name, pos). (name, f pos)) es)"
  by (induction es) (auto simp: assms)

lemma count_product:
  "length (filter (\<lambda>(i, j). P j) (List.product xs ys)) = length xs * length (filter P ys)"
  by (induction xs) (simp_all add: filter_map comp_def)

lemma whitePixelsIn_column:
  "whitePixelsIn (columnMat h w white) r =
     nat (rect_height r) * length (filter (\<lambda>j. white (nat (rect_x r) + j)) [0..<nat (rect_width r)])"
  using count_product[of "\<lambda>j. white (nat (rect_x r) + j)" "[0..<nat (rect_height r)]" "[0..<nat (rect_width r)]"]
  by (simp add: whitePixelsIn_def columnMat_def case_prod_unfold)

lemma dbl_zero: "dbl 0 = 0"
  by (simp add: dbl_def)

text \<open>
  The doubles met when the segments of a cell of 20 by 40 and of 90 by 10 are located and
  measured.
\<close>

lemma geo_1: "dbl (1 / 5) = 3602879701896397 / 18014398509481984"
  by (rule dbl_at[where e="-3" and m=7205759403792794, THEN trans]) (simp_all add: power_int_minus)

lemma geo_2: "dbl (18014398509481985 / 4503599627370496) = 4"
  by (rule dbl_at[where e=2 and m=4503599627370496, THEN trans]) (simp_all add: power_int_minus)

lemma geo_3: "dbl (3 / 5) = 5404319552844595 / 9007199254740992"
  by (rule dbl_at[where e="-1" and m=5404319552844595, THEN trans]) (simp_all add: power_int_minus)

lemma geo_4: "dbl (27021597764222975 / 2251799813685248) = 12"
  by (rule dbl_at[where e=3 and m=6755399441055744, THEN trans]) (simp_all add: power_int_minus)

lemma geo_5: "dbl (3 / 20) = 5404319552844595 / 36028797018963968"
  by (rule dbl_at[where e="-3" and m=5404319552844595, THEN trans]) (simp_all add: power_int_minus)

lemma geo_6: "dbl (27021597764222975 / 4503599627370496) = 6"
  by (rule dbl_at[where e=2 and m=6755399441055744, THEN trans]) (simp_all add: power_int_minus)

lemma geo_7: "dbl (7 / 10) = 3152519739159347 / 4503599627370496"
  by (rule dbl_at[where e="-1" and m=6305039478318694, THEN trans]) (simp_all add: power_int_minus)

lemma geo_8: "dbl (15762598695796735 / 1125899906842624) = 14"
  by (rule dbl_at_tie[where e=3 and f=7881299347898367, THEN trans]) (simp_all add: power_int_minus)

lemma geo_9: "dbl (27021597764222975 / 9007199254740992) = 3"
  by (rule dbl_at[where e=1 and m=6755399441055744, THEN trans]) (simp_all add: power_int_minus)

lemma geo_10: "dbl (1 / 2) = 1 / 2"
  by (rule dbl_at[where e="-1" and m=4503599627370496, THEN trans]) (simp_all add: power_int_minus)

lemma geo_11: "dbl (20) = 20"
  by (rule dbl_at[where e=4 and m=5629499534213120, THEN trans]) (simp_all add: power_int_minus)

lemma geo_12: "dbl (17 / 20) = 7656119366529843 / 9007199254740992"
  by (rule dbl_at[where e="-1" and m=7656119366529843, THEN trans]) (simp_all add: power_int_minus)

lemma geo_13: "dbl (38280596832649215 / 1125899906842624) = 34"
  by (rule dbl_at[where e=5 and m=4785074604081152, THEN trans]) (simp_all add: power_int_minus)

lemma geo_14: "dbl (21 / 50) = 7566047373982433 / 18014398509481984"
  by (rule dbl_at[where e="-2" and m=7566047373982433, THEN trans]) (simp_all add: power_int_minus)

lemma geo_15: "dbl (37830236869912165 / 2251799813685248) = 4728779608739021 / 281474976710656"
  by (rule dbl_at[where e=4 and m=4728779608739021, THEN trans]) (simp_all add: power_int_minus)

lemma geo_16: "dbl (162129586585337865 / 9007199254740992) = 18"
  by (rule dbl_at[where e=4 and m=5066549580791808, THEN trans]) (simp_all add: power_int_minus)

lemma geo_17: "dbl (243194379878006775 / 4503599627370496) = 54"
  by (rule dbl_at[where e=5 and m=7599824371187712, THEN trans]) (simp_all add: power_int_minus)

lemma geo_18: "dbl (27021597764222975 / 18014398509481984) = 3 / 2"
  by (rule dbl_at[where e=0 and m=6755399441055744, THEN trans]) (simp_all add: power_int_minus)

lemma geo_19: "dbl (141863388262170615 / 2251799813685248) = 8866461766385663 / 140737488355328"
  by (rule dbl_at[where e=5 and m=8866461766385663, THEN trans]) (simp_all add: power_int_minus)

lemma geo_20: "dbl (243194379878006775 / 18014398509481984) = 27 / 2"
  by (rule dbl_at[where e=3 and m=7599824371187712, THEN trans]) (simp_all add: power_int_minus)

lemma geo_21: "dbl (5) = 5"
  by (rule dbl_at[where e=2 and m=5629499534213120, THEN trans]) (simp_all add: power_int_minus)

lemma geo_22: "dbl (38280596832649215 / 4503599627370496) = 17 / 2"
  by (rule dbl_at[where e=3 and m=4785074604081152, THEN trans]) (simp_all add: power_int_minus)

lemma geo_23: "dbl (37830236869912165 / 9007199254740992) = 4728779608739021 / 1125899906842624"
  by (rule dbl_at[where e=2 and m=4728779608739021, THEN trans]) (simp_all add: power_int_minus)

lemma geo_floor_1: "\<lfloor>(4728779608739021 / 281474976710656 :: rat)\<rfloor> = 16"
  by (simp add: floor_eq_iff)

lemma geo_floor_2: "\<lfloor>(3 / 2 :: rat)\<rfloor> = 1"
  by (simp add: floor_eq_iff)

lemma geo_floor_3: "\<lfloor>(8866461766385663 / 140737488355328 :: rat)\<rfloor> = 62"
  by (simp add: floor_eq_iff)

lemma geo_floor_4: "\<lfloor>(27 / 2 :: rat)\<rfloor> = 13"
  by (simp add: floor_eq_iff)

lemma geo_floor_5: "\<lfloor>(17 / 2 :: rat)\<rfloor> = 8"
  by (simp add: floor_eq_iff)

lemma geo_floor_6: "\<lfloor>(4728779608739021 / 1125899906842624 :: rat)\<rfloor> = 4"
  by (simp add: floor_eq_iff)

lemma ratio_1: "dbl (2 / 27) = 667199944795629 / 9007199254740992"
  by (rule dbl_at[where e="-4" and m=5337599558365032, THEN trans]) (simp_all add: power_int_minus)

lemma ratio_2: "dbl (4 / 13) = 1385722962267845 / 4503599627370496"
  by (rule dbl_at[where e="-2" and m=5542891849071380, THEN trans]) (simp_all add: power_int_minus)

lemma ratio_3: "dbl (5 / 6) = 7505999378950827 / 9007199254740992"
  by (rule dbl_at[where e="-1" and m=7505999378950827, THEN trans]) (simp_all add: power_int_minus)

lemma ratio_4: "dbl (3 / 10) = 5404319552844595 / 18014398509481984"
  using dbl_3_10 by simp

lemmas geometry_values = dbl_zero dbl_one geo_1 geo_2 geo_3 geo_4 geo_5 geo_6 geo_7 geo_8 geo_9 geo_10 geo_11 geo_12 geo_13 geo_14 geo_15 geo_16 geo_17 geo_18 geo_19 geo_20 geo_21 geo_22 geo_23 geo_floor_1 geo_floor_2 geo_floor_3 geo_floor_4 geo_floor_5 geo_floor_6 ratio_1 ratio_2 ratio_3 ratio_4

text \<open>The definitions a run of \<open>analyzeSegments\<close> on a concrete image goes through.\<close>

lemmas analyzeSegments_run =
  analyzeSegments_def invalidBounds_def roi_def segments_def segmentState_def segmentRect_def
  segmentInside_def asSegmentState_def countNonZero_def count_product jsMul_def jsDiv_def
  Let_def cell_def

text \<open>
  Claim C6, as the code has it. With the hook ready, for a binary image and a digit
  region inside it, the extractor marks a segment on exactly when its sub-rectangle has
  pixels, lies inside the digit region, and the fraction of white pixels of the image
  inside it is strictly greater than 0.30; otherwise the segment is off. The
  sub-rectangle is the one the code computes: the fractions are the doubles of the
  fractions of the geometry table, and each coordinate and extent is the floor of the
  double product of the fraction and the width or height. For widths and heights up to
  \<open>2^31\<close> that floor is the floor of the exact product, except that it may be one below it
  where the exact product is a whole number. A region of non-positive width or height,
  or one that exceeds the image, gives all seven segments off, without an error. The
  image is taken to have at most \<open>2^51\<close> pixels, so that the comparison of the double
  ratio with the double \<open>0.3\<close> agrees with the exact one.
\<close>

theorem analyzeSegments_threshold:
  "(cvLoaded cv \<and> isReady cv \<and> int (rows img) * int (cols img) \<le> 2 ^ 51 \<and>
    0 \<le> rect_x r \<and> 0 \<le> rect_y r \<and> 0 < rect_width r \<and> 0 < rect_height r \<and>
    rect_x r + rect_width r \<le> int (cols img) \<and> rect_y r + rect_height r \<le> int (rows img)
    \<longrightarrow>
      analyzeSegments cv (Some img) (Some r) =
        \<lparr>seg_a = segmentOn_spec img r (segmentRect r (segmentAt (CHR ''a''))),
         seg_b = segmentOn_spec img r (segmentRect r (segmentAt (CHR ''b''))),
         seg_c = segmentOn_spec img r (segmentRect r (segmentAt (CHR ''c''))),
         seg_d = segmentOn_spec img r (segmentRect r (segmentAt (CHR ''d''))),
         seg_e = segmentOn_spec img r (segmentRect r (segmentAt (CHR ''e''))),
         seg_f = segmentOn_spec img r (segmentRect r (segmentAt (CHR ''f''))),
         seg_g = segmentOn_spec img r (segmentRect r (segmentAt (CHR ''g'')))\<rparr>) \<and>
   (c \<in> set ''abcdefg'' \<and> 0 < rect_width r \<and> rect_width r \<le> 2 ^ 31 \<and>
    0 < rect_height r \<and> rect_height r \<le> 2 ^ 31
    \<longrightarrow>
      segmentAt c = \<lparr>pos_x = dbl (pos_x (fractionsAt c)), pos_y = dbl (pos_y (fractionsAt c)),
                     pos_w = dbl (pos_w (fractionsAt c)), pos_h = dbl (pos_h (fractionsAt c))\<rparr> \<and>
      nearFloor (pos_x (fractionsAt c)) (rect_width r) (rect_x (segmentRect r (segmentAt c))) \<and>
      nearFloor (pos_y (fractionsAt c)) (rect_height r) (rect_y (segmentRect r (segmentAt c))) \<and>
      nearFloor (pos_w (fractionsAt c)) (rect_width r) (rect_width (segmentRect r (segmentAt c))) \<and>
      nearFloor (pos_h (fractionsAt c)) (rect_height r) (rect_height (segmentRect r (segmentAt c)))) \<and>
   (rect_width r \<le> 0 \<or> rect_height r \<le> 0 \<or> rect_x r < 0 \<or> rect_y r < 0 \<or>
    int (cols img) < rect_x r + rect_width r \<or> int (rows img) < rect_y r + rect_height r
    \<longrightarrow> analyzeSegments cv (Some img) (Some r) = allOff)"
proof (intro conjI impI)
  assume a: "cvLoaded cv \<and> isReady cv \<and> int (rows img) * int (cols img) \<le> 2 ^ 51 \<and>
    0 \<le> rect_x r \<and> 0 \<le> rect_y r \<and> 0 < rect_width r \<and> 0 < rect_height r \<and>
    rect_x r + rect_width r \<le> int (cols img) \<and> rect_y r + rect_height r \<le> int (rows img)"
  then have rdy: "cvLoaded cv" "isReady cv"
    and size: "int (rows img) * int (cols img) \<le> 2 ^ 51"
    and b: "0 \<le> rect_x r" "0 \<le> rect_y r" "0 < rect_width r" "0 < rect_height r"
      "rect_x r + rect_width r \<le> int (cols img)" "rect_y r + rect_height r \<le> int (rows img)"
    by simp_all
  have nb: "\<not> invalidBounds img r" using b by (simp add: invalidBounds_def)
  define d where "d = \<lparr>rows = nat (rect_height r), cols = nat (rect_width r),
            ucharAt = (\<lambda>i j. ucharAt img (nat (rect_y r) + i) (nat (rect_x r) + j))\<rparr>"
  have d: "roi img r = Some d" unfolding d_def using b by (intro roi_inside) simp_all
  have st: "segmentState d r pos = Some (segmentOn_spec img r (segmentRect r pos))" for pos
  proof -
    define sr where "sr = segmentRect r pos"
    have wc: "withinCell_spec r sr = segmentInside r sr"
      by (auto simp: withinCell_spec_def segmentInside_def)
    show ?thesis
    proof (cases "segmentInside r sr")
      case False
      then show ?thesis
        by (simp add: segmentState_def segmentOn_spec_def wc sr_def[symmetric] Let_def)
    next
      case True
      then have s: "0 \<le> rect_x sr" "0 \<le> rect_y sr" "0 < rect_width sr" "0 < rect_height sr"
          "rect_x sr + rect_width sr \<le> rect_width r" "rect_y sr + rect_height sr \<le> rect_height r"
        by (simp_all add: segmentInside_def)
      have r2: "roi d sr = Some \<lparr>rows = nat (rect_height sr), cols = nat (rect_width sr),
                ucharAt = (\<lambda>i j. ucharAt d (nat (rect_y sr) + i) (nat (rect_x sr) + j))\<rparr>"
        using s b by (intro roi_inside) (simp_all add: d_def)
      have cnt: "countNonZero \<lparr>rows = nat (rect_height sr), cols = nat (rect_width sr),
                ucharAt = (\<lambda>i j. ucharAt d (nat (rect_y sr) + i) (nat (rect_x sr) + j))\<rparr>
              = whitePixelsIn img (absRect r sr)"
        unfolding d_def using b(1,2) s(1,2) by (rule count_roi_roi)
      have fr: "whiteFraction_spec img (absRect r sr) =
                  of_nat (whitePixelsIn img (absRect r sr)) / of_int (rect_width sr * rect_height sr)"
        by (simp add: whiteFraction_spec_def absRect_def)
      have "rect_width sr \<le> int (cols img)" "rect_height sr \<le> int (rows img)"
        using s b by linarith+
      note tb = area_bound[OF s(3,4) this size]
      have "segmentState d r pos =
              Some (jsDiv (of_nat (whitePixelsIn img (absRect r sr)))
                          (of_int (rect_width sr * rect_height sr)) > dbl (3 / 10))"
        using True by (simp add: segmentState_def Let_def sr_def[symmetric] r2 cnt)
      also have "\<dots> = Some (segmentOn_spec img r sr)"
        using True unfolding white_ratio[OF tb] segmentOn_spec_def wc fr by simp
      finally show ?thesis by (simp add: sr_def)
    qed
  qed
  have "forEachSegment d r segments =
          Some (map (\<lambda>(name, pos). (name, segmentOn_spec img r (segmentRect r pos))) segments)"
    by (rule forEachSegment_spec) (rule st)
  then have "analyzeSegments cv (Some img) (Some r) =
          asSegmentState
            (map (\<lambda>(name, pos). (name, segmentOn_spec img r (segmentRect r pos))) segments)"
    using rdy nb d by (simp add: analyzeSegments_def)
  then show "analyzeSegments cv (Some img) (Some r) =
        \<lparr>seg_a = segmentOn_spec img r (segmentRect r (segmentAt (CHR ''a''))),
         seg_b = segmentOn_spec img r (segmentRect r (segmentAt (CHR ''b''))),
         seg_c = segmentOn_spec img r (segmentRect r (segmentAt (CHR ''c''))),
         seg_d = segmentOn_spec img r (segmentRect r (segmentAt (CHR ''d''))),
         seg_e = segmentOn_spec img r (segmentRect r (segmentAt (CHR ''e''))),
         seg_f = segmentOn_spec img r (segmentRect r (segmentAt (CHR ''f''))),
         seg_g = segmentOn_spec img r (segmentRect r (segmentAt (CHR ''g'')))\<rparr>"
    by (simp add: asSegmentState_def segmentAt_def segments_def)
next
  assume g: "c \<in> set ''abcdefg'' \<and> 0 < rect_width r \<and> rect_width r \<le> 2 ^ 31 \<and>
    0 < rect_height r \<and> rect_height r \<le> 2 ^ 31"
  then have c: "c \<in> set ''abcdefg''"
    and w: "0 < rect_width r" "rect_width r \<le> 2 ^ 31"
    and h: "0 < rect_height r" "rect_height r \<le> 2 ^ 31"
    by blast+
  have W: "nearFloor (of_int k / 100) (rect_width r)
             \<lfloor>jsMul (dbl (of_int k / 100)) (of_int (rect_width r))\<rfloor>"
    if "k \<in> {0, 15, 20, 60, 70}" for k :: int
    using that by (intro floor_jsMul_hundredths[OF w]) auto
  have H: "nearFloor (of_int k / 100) (rect_height r)
             \<lfloor>jsMul (dbl (of_int k / 100)) (of_int (rect_height r))\<rfloor>"
    if "k \<in> {0, 15, 42, 50, 85}" for k :: int
    using that by (intro floor_jsMul_hundredths[OF h]) auto
  note near = W[of 0] W[of 15] W[of 20] W[of 60] W[of 70]
    H[of 0] H[of 15] H[of 42] H[of 50] H[of 85]
  show "segmentAt c = \<lparr>pos_x = dbl (pos_x (fractionsAt c)), pos_y = dbl (pos_y (fractionsAt c)),
                       pos_w = dbl (pos_w (fractionsAt c)), pos_h = dbl (pos_h (fractionsAt c))\<rparr>"
    using c by (auto simp: segmentAt_def segments_def fractionsAt_def geometry_spec_def)
  show "nearFloor (pos_x (fractionsAt c)) (rect_width r) (rect_x (segmentRect r (segmentAt c)))"
    using c near
    by (auto simp: segmentAt_def segments_def fractionsAt_def geometry_spec_def segmentRect_def)
  show "nearFloor (pos_y (fractionsAt c)) (rect_height r) (rect_y (segmentRect r (segmentAt c)))"
    using c near
    by (auto simp: segmentAt_def segments_def fractionsAt_def geometry_spec_def segmentRect_def)
  show "nearFloor (pos_w (fractionsAt c)) (rect_width r) (rect_width (segmentRect r (segmentAt c)))"
    using c near
    by (auto simp: segmentAt_def segments_def fractionsAt_def geometry_spec_def segmentRect_def)
  show "nearFloor (pos_h (fractionsAt c)) (rect_height r) (rect_height (segmentRect r (segmentAt c)))"
    using c near
    by (auto simp: segmentAt_def segments_def fractionsAt_def geometry_spec_def segmentRect_def)
next
  assume "rect_width r \<le> 0 \<or> rect_height r \<le> 0 \<or> rect_x r < 0 \<or> rect_y r < 0 \<or>
    int (cols img) < rect_x r + rect_width r \<or> int (rows img) < rect_y r + rect_height r"
  then have "invalidBounds img r" by (auto simp: invalidBounds_def)
  then show "analyzeSegments cv (Some img) (Some r) = allOff" by (simp add: analyzeSegments_def)
qed

text \<open>
  The extractor run on the image whose columns 62 to 65 are white, with the cell 90 wide
  and 10 high that covers it: the segments \<open>b\<close> and \<open>c\<close> are on, and so says the rule. The
  width of segment \<open>b\<close> is \<open>\<lfloor>0.15 * 90\<rfloor> = 13\<close>. A cell one column wider than the image gives
  all segments off.
\<close>

theorem analyzeSegments_threshold_witness:
  "analyzeSegments cvReady (Some bandMat) (Some (cell 0 90 10)) =
     \<lparr>seg_a = False, seg_b = True, seg_c = True, seg_d = False,
      seg_e = False, seg_f = False, seg_g = False\<rparr> \<and>
   map (\<lambda>c. segmentOn_spec bandMat (cell 0 90 10) (segmentRect (cell 0 90 10) (segmentAt c)))
       ''abcdefg'' = [False, True, True, False, False, False, False] \<and>
   rect_width (segmentRect (cell 0 90 10) (segmentAt (CHR ''b''))) = 13 \<and>
   analyzeSegments cvReady (Some bandMat) (Some (cell 0 91 10)) = allOff"
proof -
  have run: "analyzeSegments cvReady (Some bandMat) (Some (cell 0 90 10)) =
     \<lparr>seg_a = False, seg_b = True, seg_c = True, seg_d = False,
      seg_e = False, seg_f = False, seg_g = False\<rparr>"
    by (simp add: analyzeSegments_run cvReady_def bandMat_def columnMat_def geometry_values
        upt_conv_Cons)
  have "cvLoaded cvReady \<and> isReady cvReady \<and>
        int (rows bandMat) * int (cols bandMat) \<le> 2 ^ 51 \<and>
        0 \<le> rect_x (cell 0 90 10) \<and> 0 \<le> rect_y (cell 0 90 10) \<and>
        0 < rect_width (cell 0 90 10) \<and> 0 < rect_height (cell 0 90 10) \<and>
        rect_x (cell 0 90 10) + rect_width (cell 0 90 10) \<le> int (cols bandMat) \<and>
        rect_y (cell 0 90 10) + rect_height (cell 0 90 10) \<le> int (rows bandMat)"
    by (simp add: cvReady_def bandMat_def columnMat_def cell_def)
  with analyzeSegments_threshold [of cvReady bandMat "cell 0 90 10"]
  have "analyzeSegments cvReady (Some bandMat) (Some (cell 0 90 10)) =
     \<lparr>seg_a = segmentOn_spec bandMat (cell 0 90 10) (segmentRect (cell 0 90 10) (segmentAt (CHR ''a''))),
      seg_b = segmentOn_spec bandMat (cell 0 90 10) (segmentRect (cell 0 90 10) (segmentAt (CHR ''b''))),
      seg_c = segmentOn_spec bandMat (cell 0 90 10) (segmentRect (cell 0 90 10) (segmentAt (CHR ''c''))),
      seg_d = segmentOn_spec bandMat (cell 0 90 10) (segmentRect (cell 0 90 10) (segmentAt (CHR ''d''))),
      seg_e = segmentOn_spec bandMat (cell 0 90 10) (segmentRect (cell 0 90 10) (segmentAt (CHR ''e''))),
      seg_f = segmentOn_spec bandMat (cell 0 90 10) (segmentRect (cell 0 90 10) (segmentAt (CHR ''f''))),
      seg_g = segmentOn_spec bandMat (cell 0 90 10) (segmentRect (cell 0 90 10) (segmentAt (CHR ''g'')))\<rparr>"
    by blast
  with run have rule:
    "map (\<lambda>c. segmentOn_spec bandMat (cell 0 90 10) (segmentRect (cell 0 90 10) (segmentAt c)))
         ''abcdefg'' = [False, True, True, False, False, False, False]"
    by simp
  have "CHR ''b'' \<in> set ''abcdefg'' \<and> 0 < rect_width (cell 0 90 10) \<and>
        rect_width (cell 0 90 10) \<le> 2 ^ 31 \<and> 0 < rect_height (cell 0 90 10) \<and>
        rect_height (cell 0 90 10) \<le> 2 ^ 31"
    by (simp add: cell_def)
  with analyzeSegments_threshold [of cvReady bandMat "cell 0 90 10" "CHR ''b''"]
  have "nearFloor (pos_w (fractionsAt (CHR ''b''))) (rect_width (cell 0 90 10))
          (rect_width (segmentRect (cell 0 90 10) (segmentAt (CHR ''b''))))"
    by blast
  moreover have "\<lfloor>(27 / 2 :: rat)\<rfloor> = 13" by (simp add: floor_eq_iff)
  ultimately have width: "rect_width (segmentRect (cell 0 90 10) (segmentAt (CHR ''b''))) = 13"
    by (simp add: nearFloor_def fractionsAt_def geometry_spec_def cell_def)
  have "int (cols bandMat) < rect_x (cell 0 91 10) + rect_width (cell 0 91 10)"
    by (simp add: bandMat_def columnMat_def cell_def)
  with analyzeSegments_threshold [of cvReady bandMat "cell 0 91 10"]
  have "analyzeSegments cvReady (Some bandMat) (Some (cell 0 91 10)) = allOff"
    by blast
  with run rule width show ?thesis by blast
qed

text \<open>
  The claim as it is worded, with the sub-rectangle the floor of the exact product, fails
  on that image. The code samples segment \<open>b\<close> in the columns 62 to 74, finds 20 white
  pixels of 65 and marks it on. The floor of \<open>0.70 * 90\<close> is 63: the columns 63 to 75 hold
  15 white pixels of 65, which is not above 0.30.
\<close>

theorem analyzeSegments_exact_floor_counterexample:
  "seg_b (analyzeSegments cvReady (Some bandMat) (Some (cell 0 90 10))) \<and>
   \<not> segmentOn_spec bandMat (cell 0 90 10)
       (subRect_spec (cell 0 90 10) (fractionsAt (CHR ''b''))) \<and>
   segmentRect (cell 0 90 10) (segmentAt (CHR ''b'')) =
     \<lparr>rect_x = 62, rect_y = 0, rect_width = 13, rect_height = 5\<rparr> \<and>
   subRect_spec (cell 0 90 10) (fractionsAt (CHR ''b'')) =
     \<lparr>rect_x = 63, rect_y = 0, rect_width = 13, rect_height = 5\<rparr> \<and>
   whiteFraction_spec bandMat \<lparr>rect_x = 62, rect_y = 0, rect_width = 13, rect_height = 5\<rparr>
     = 20 / 65 \<and>
   whiteFraction_spec bandMat \<lparr>rect_x = 63, rect_y = 0, rect_width = 13, rect_height = 5\<rparr>
     = 15 / 65"
proof -
  have "analyzeSegments cvReady (Some bandMat) (Some (cell 0 90 10)) =
     \<lparr>seg_a = False, seg_b = True, seg_c = True, seg_d = False,
      seg_e = False, seg_f = False, seg_g = False\<rparr>"
    by (simp add: analyzeSegments_run cvReady_def bandMat_def columnMat_def geometry_values
        upt_conv_Cons)
  then have on: "seg_b (analyzeSegments cvReady (Some bandMat) (Some (cell 0 90 10)))"
    by simp
  have exact: "subRect_spec (cell 0 90 10) (fractionsAt (CHR ''b'')) =
     \<lparr>rect_x = 63, rect_y = 0, rect_width = 13, rect_height = 5\<rparr>"
    by (simp add: subRect_spec_def fractionsAt_def geometry_spec_def cell_def floor_eq_iff)
  have code: "segmentRect (cell 0 90 10) (segmentAt (CHR ''b'')) =
     \<lparr>rect_x = 62, rect_y = 0, rect_width = 13, rect_height = 5\<rparr>"
    by (simp add: segmentAt_def segments_def segmentRect_def cell_def jsMul_def geometry_values)
  have off: "\<not> segmentOn_spec bandMat (cell 0 90 10)
            (subRect_spec (cell 0 90 10) (fractionsAt (CHR ''b'')))"
    unfolding exact
    by (simp add: segmentOn_spec_def withinCell_spec_def whiteFraction_spec_def absRect_def
        bandMat_def whitePixelsIn_column cell_def upt_conv_Cons)
  have
    "whiteFraction_spec bandMat \<lparr>rect_x = 62, rect_y = 0, rect_width = 13, rect_height = 5\<rparr>
       = 20 / 65"
    "whiteFraction_spec bandMat \<lparr>rect_x = 63, rect_y = 0, rect_width = 13, rect_height = 5\<rparr>
       = 15 / 65"
    by (simp_all add: whiteFraction_spec_def bandMat_def whitePixelsIn_column upt_conv_Cons)
  with on off code exact show ?thesis by blast
qed

section \<open>The display region detector\<close>

lemma abs_width_bound:
  assumes "500 < w * h" "w * h < (50000::int)"
  shows "w \<noteq> 0" "\<bar>w\<bar> < 50000"
proof -
  show w0: "w \<noteq> 0" using assms(1) by auto
  have h0: "h \<noteq> 0" using assms(1) by auto
  then have "1 \<le> \<bar>h\<bar>" by simp
  then have "\<bar>w\<bar> * 1 \<le> \<bar>w\<bar> * \<bar>h\<bar>" by (intro mult_left_mono) simp_all
  also have "\<dots> = \<bar>w * h\<bar>" by (simp add: abs_mult)
  also have "\<dots> = w * h" using assms(1) by simp
  finally show "\<bar>w\<bar> < 50000" using assms(2) by simp
qed

lemma ratio_abs: "w \<noteq> 0 \<Longrightarrow> (of_int h / of_int w :: rat) = of_int (sgn w * h) / of_int \<bar>w\<bar>"
  by (cases "0 < w") (simp_all add: sgn_if)

lemma digitLike_spec: "digitLike r = retained_spec r"
proof (cases "500 < rect_width r * rect_height r \<and> rect_width r * rect_height r < 50000")
  case False
  then show ?thesis by (auto simp: digitLike_def retained_spec_def Let_def)
next
  case True
  then have w0: "rect_width r \<noteq> 0" and wb: "\<bar>rect_width r\<bar> < 50000"
    using abs_width_bound[of "rect_width r" "rect_height r"] by auto
  define q :: rat where "q = of_int (rect_height r) / of_int (rect_width r)"
  have q: "q = of_int (sgn (rect_width r) * rect_height r) / of_int \<bar>rect_width r\<bar>"
    unfolding q_def using w0 by (rule ratio_abs)
  have bpos: "0 < \<bar>rect_width r\<bar>" using w0 by simp
  have g1: "q \<le> 12 / 10 \<or> 5404319552844596 / 2 ^ 52 \<le> q"
    unfolding q by (rule gap_6_5[OF bpos wb])
  have g2: "q \<le> 3 - 1 / 2 ^ 51 \<or> 3 \<le> q"
    unfolding q by (rule gap_3[OF bpos wb])
  have lo: "dbl q > dbl (12 / 10) \<longleftrightarrow> q > 12 / 10"
    unfolding dbl_6_5
    by (rule dbl_gt_iff[OF _ dbl_6_5 dbl_above_6_5 _ _ g1]) simp_all
  have hi: "dbl q < 3 \<longleftrightarrow> q < 3"
    by (rule dbl_lt_iff[OF dbl_three _ dbl_below_three _ g2]) simp_all
  have "aspectRatio r = Some (dbl q)" using w0 by (simp add: aspectRatio_def jsDiv_def q_def)
  with True lo hi show ?thesis
    by (simp add: digitLike_def retained_spec_def Let_def q_def)
qed

lemma detectDisplay_ready:
  assumes "cvLoaded cv" "isReady cv" "boundingRects cv m = Some rects"
  shows "detectDisplay cv (Some m) = sort_key rect_x (filter retained_spec rects)"
proof -
  have "filter digitLike rects = filter retained_spec rects"
    by (rule filter_cong) (simp_all add: digitLike_spec)
  with assms show ?thesis by (simp add: detectDisplay_def)
qed

lemma detectDisplay_sorted: "sorted (map rect_x (detectDisplay cv img))"
  by (auto simp: detectDisplay_def split: option.splits)

lemma detectDisplay_none:
  "\<not> cvLoaded cv \<or> \<not> isReady cv \<or> img = None \<or> (\<exists>m. img = Some m \<and> boundingRects cv m = None)
     \<Longrightarrow> detectDisplay cv img = []"
  by (auto simp: detectDisplay_def split: option.splits)

text \<open>
  Claim C7. The detector keeps a bounding rectangle exactly when its area (width times
  height) is strictly between 500 and 50000 and its ratio of height to width is
  strictly between 1.2 and 3.0 (the comparisons of the code, made on doubles, agree with
  the exact ones); it returns the rectangles it keeps sorted by ascending \<open>x\<close>; and it
  returns the empty sequence, never failing, when no rectangle qualifies, when the hook
  is not ready or when OpenCV throws. In particular a single rectangle inside both
  ranges (as one of area 1000 and ratio 2.0 is) gives exactly one region, and one of
  area at most 500 (as one of area 100 is) gives none.
\<close>

theorem detectDisplay_retains:
  "digitLike r = retained_spec r \<and>
   sorted (map rect_x (detectDisplay cv img)) \<and>
   (cvLoaded cv \<and> isReady cv \<and> img = Some m \<and> boundingRects cv m = Some rects \<longrightarrow>
      detectDisplay cv img = sort_key rect_x (filter retained_spec rects) \<and>
      set (detectDisplay cv img) = {r \<in> set rects. retained_spec r} \<and>
      length (detectDisplay cv img) = length (filter retained_spec rects) \<and>
      ((\<forall>r \<in> set rects. \<not> retained_spec r) \<longrightarrow> detectDisplay cv img = [])) \<and>
   (cvLoaded cv \<and> isReady cv \<and> img = Some m \<and> boundingRects cv m = Some [r] \<longrightarrow>
      (retained_spec r \<longrightarrow> detectDisplay cv img = [r]) \<and>
      (rect_width r * rect_height r \<le> 500 \<longrightarrow> detectDisplay cv img = [])) \<and>
   (\<not> cvLoaded cv \<or> \<not> isReady cv \<or> img = None \<or>
      (\<exists>m. img = Some m \<and> boundingRects cv m = None) \<longrightarrow> detectDisplay cv img = [])"
proof (intro conjI impI)
  show "digitLike r = retained_spec r" by (rule digitLike_spec)
  show "sorted (map rect_x (detectDisplay cv img))" by (rule detectDisplay_sorted)
next
  assume a: "cvLoaded cv \<and> isReady cv \<and> img = Some m \<and> boundingRects cv m = Some rects"
  then have d: "detectDisplay cv img = sort_key rect_x (filter retained_spec rects)"
    using detectDisplay_ready[of cv m rects] by simp
  show "detectDisplay cv img = sort_key rect_x (filter retained_spec rects)" by (rule d)
  show "set (detectDisplay cv img) = {r \<in> set rects. retained_spec r}" by (simp add: d)
  show "length (detectDisplay cv img) = length (filter retained_spec rects)" by (simp add: d)
  assume "\<forall>r \<in> set rects. \<not> retained_spec r"
  then have "filter retained_spec rects = []" by (simp add: filter_empty_conv)
  then show "detectDisplay cv img = []" by (simp add: d)
next
  assume a: "cvLoaded cv \<and> isReady cv \<and> img = Some m \<and> boundingRects cv m = Some [r]"
  then have d: "detectDisplay cv img = sort_key rect_x (filter retained_spec [r])"
    using detectDisplay_ready[of cv m "[r]"] by simp
  { assume "retained_spec r" then show "detectDisplay cv img = [r]" by (simp add: d) }
  { assume "rect_width r * rect_height r \<le> 500"
    then have "\<not> retained_spec r" by (simp add: retained_spec_def)
    then show "detectDisplay cv img = []" by (simp add: d) }
next
  assume "\<not> cvLoaded cv \<or> \<not> isReady cv \<or> img = None \<or> (\<exists>m. img = Some m \<and> boundingRects cv m = None)"
  then show "detectDisplay cv img = []" by (rule detectDisplay_none)
qed

theorem detectDisplay_retains_witness:
  "detectDisplay cvContours (Some (whiteMat 100 200)) = [cell 30 20 50, cell 90 25 40] \<and>
   detectDisplay cvReady (Some (whiteMat 100 200)) = []"
proof -
  have "detectDisplay cvContours (Some (whiteMat 100 200)) = [cell 30 20 50, cell 90 25 40]"
    using detectDisplay_retains [of _ cvContours "Some (whiteMat 100 200)" "whiteMat 100 200"
        "[cell 90 25 40, cell 60 10 10, cell 30 20 50, cell 0 40 40]"]
    by (simp add: cvContours_def retained_spec_def cell_def)
  moreover have "detectDisplay cvReady (Some (whiteMat 100 200)) = []"
    using detectDisplay_retains [of _ cvReady "Some (whiteMat 100 200)"]
    by (simp add: cvReady_def)
  ultimately show ?thesis by simp
qed

section \<open>The pipeline\<close>

lemma length_concat_digits:
  "length (concat (map (\<lambda>r. segmentsToDigit (f r)) rs)) = length rs"
  by (induction rs) (simp_all add: segmentsToDigit_length)

lemma processImage_empty:
  "\<not> isReady cv \<Longrightarrow> processImage cv imageData threshold = emptyResult"
  "imageData = None \<Longrightarrow> processImage cv imageData threshold = emptyResult"
  "imageData = Some frame \<Longrightarrow> detectDisplay cv (preprocessImage cv frame threshold) = [] \<Longrightarrow> processImage cv imageData threshold = emptyResult"
    apply (simp add: processImage_def)
   apply (simp add: processImage_def processImage_try_def)
  apply (auto simp: processImage_def processImage_try_def split: option.splits)
  done

lemma detectDisplay_None: "detectDisplay cv None = []"
  by (simp add: detectDisplay_def)

text \<open>
  The doubles met when one region is scored by \<open>processImage\<close> and by
  \<open>calculateConfidence\<close>, for each number of lit segments, and when the frame of two
  digits is scored.
\<close>

lemma pval_1: "dbl (9 / 10) = 8106479329266893 / 9007199254740992"
  by (rule dbl_at[where e="-1" and m=8106479329266893, THEN trans]) (simp_all add: power_int_minus)

lemma pval_2: "dbl (1 / 10) = 3602879701896397 / 36028797018963968"
  by (rule dbl_at[where e="-4" and m=7205759403792794, THEN trans]) (simp_all add: power_int_minus)

lemma pval_3: "dbl (8106479329266893 / 9007199254740992) = 8106479329266893 / 9007199254740992"
  by (rule dbl_at[where e="-1" and m=8106479329266893, THEN trans]) (simp_all add: power_int_minus)

lemma pval_4: "dbl (3602879701896397 / 36028797018963968) = 3602879701896397 / 36028797018963968"
  by (rule dbl_at[where e="-4" and m=7205759403792794, THEN trans]) (simp_all add: power_int_minus)

lemma pval_5: "dbl (1 / 7) = 2573485501354569 / 18014398509481984"
  by (rule dbl_at[where e="-3" and m=5146971002709138, THEN trans]) (simp_all add: power_int_minus)

lemma pval_6: "dbl (2573485501354569 / 18014398509481984) = 2573485501354569 / 18014398509481984"
  by (rule dbl_at[where e="-3" and m=5146971002709138, THEN trans]) (simp_all add: power_int_minus)

lemma pval_7: "dbl (2 / 7) = 2573485501354569 / 9007199254740992"
  by (rule dbl_at[where e="-2" and m=5146971002709138, THEN trans]) (simp_all add: power_int_minus)

lemma pval_8: "dbl (2573485501354569 / 9007199254740992) = 2573485501354569 / 9007199254740992"
  by (rule dbl_at[where e="-2" and m=5146971002709138, THEN trans]) (simp_all add: power_int_minus)

lemma pval_9: "dbl (3 / 7) = 7720456504063707 / 18014398509481984"
  by (rule dbl_at[where e="-2" and m=7720456504063707, THEN trans]) (simp_all add: power_int_minus)

lemma pval_10: "dbl (7720456504063707 / 18014398509481984) = 7720456504063707 / 18014398509481984"
  by (rule dbl_at[where e="-2" and m=7720456504063707, THEN trans]) (simp_all add: power_int_minus)

lemma pval_11: "dbl (4 / 7) = 2573485501354569 / 4503599627370496"
  by (rule dbl_at[where e="-1" and m=5146971002709138, THEN trans]) (simp_all add: power_int_minus)

lemma pval_12: "dbl (2573485501354569 / 4503599627370496) = 2573485501354569 / 4503599627370496"
  by (rule dbl_at[where e="-1" and m=5146971002709138, THEN trans]) (simp_all add: power_int_minus)

lemma pval_13: "dbl (5 / 7) = 6433713753386423 / 9007199254740992"
  by (rule dbl_at[where e="-1" and m=6433713753386423, THEN trans]) (simp_all add: power_int_minus)

lemma pval_14: "dbl (6433713753386423 / 9007199254740992) = 6433713753386423 / 9007199254740992"
  by (rule dbl_at[where e="-1" and m=6433713753386423, THEN trans]) (simp_all add: power_int_minus)

lemma pval_15: "dbl (6 / 7) = 7720456504063707 / 9007199254740992"
  by (rule dbl_at[where e="-1" and m=7720456504063707, THEN trans]) (simp_all add: power_int_minus)

lemma pval_16: "dbl (7720456504063707 / 9007199254740992) = 7720456504063707 / 9007199254740992"
  by (rule dbl_at[where e="-1" and m=7720456504063707, THEN trans]) (simp_all add: power_int_minus)

lemma pval_17: "dbl (6 / 5) = 5404319552844595 / 4503599627370496"
  by (rule dbl_at[where e=0 and m=5404319552844595, THEN trans]) (simp_all add: power_int_minus)

lemma pval_18: "dbl (19471113219505603967277331424215 / 162259276829213363391578010288128) = 1080863910568919 / 9007199254740992"
  by (rule dbl_at[where e="-4" and m=8646911284551352, THEN trans]) (simp_all add: power_int_minus)

lemma pval_19: "dbl (3 / 5) = 5404319552844595 / 9007199254740992"
  by (rule dbl_at[where e="-1" and m=5404319552844595, THEN trans]) (simp_all add: power_int_minus)

lemma pval_20: "dbl (5404319552844595 / 9007199254740992) = 5404319552844595 / 9007199254740992"
  by (rule dbl_at[where e="-1" and m=5404319552844595, THEN trans]) (simp_all add: power_int_minus)

lemma pval_21: "dbl (29206669829258403248756220714025 / 40564819207303340847894502572032) = 3242591731706757 / 4503599627370496"
  by (rule dbl_at[where e="-1" and m=6485183463413514, THEN trans]) (simp_all add: power_int_minus)

lemma pval_22: "dbl (4 / 5) = 3602879701896397 / 4503599627370496"
  by (rule dbl_at[where e="-1" and m=7205759403792794, THEN trans]) (simp_all add: power_int_minus)

lemma pval_23: "dbl (1 / 5) = 3602879701896397 / 18014398509481984"
  by (rule dbl_at[where e="-3" and m=7205759403792794, THEN trans]) (simp_all add: power_int_minus)

lemma pval_24: "dbl (9271958675955049336661600587893 / 162259276829213363391578010288128) = 8235153604334621 / 144115188075855872"
  by (rule dbl_at[where e="-5" and m=8235153604334621, THEN trans]) (simp_all add: power_int_minus)

lemma pval_25: "dbl (123527304065019325 / 144115188075855872) = 1930114126015927 / 2251799813685248"
  by (rule dbl_at[where e="-1" and m=7720456504063708, THEN trans]) (simp_all add: power_int_minus)

lemma pval_26: "dbl (1930114126015927 / 2251799813685248) = 1930114126015927 / 2251799813685248"
  by (rule dbl_at[where e="-1" and m=7720456504063708, THEN trans]) (simp_all add: power_int_minus)

lemma pval_27: "dbl (10430953510449430889767125864565 / 10141204801825835211973625643008) = 4632273902438225 / 4503599627370496"
  by (rule dbl_at[where e=0 and m=4632273902438225, THEN trans]) (simp_all add: power_int_minus)

lemma pval_28: "dbl (27815876027865148009984801763679 / 324518553658426726783156020576256) = 3088182601625483 / 36028797018963968"
  by (rule dbl_at[where e="-4" and m=6176365203250966, THEN trans]) (simp_all add: power_int_minus)

lemma pval_29: "dbl (31911220216796659 / 36028797018963968) = 7977805054199165 / 9007199254740992"
  by (rule dbl_at[where e="-1" and m=7977805054199165, THEN trans]) (simp_all add: power_int_minus)

lemma pval_30: "dbl (7977805054199165 / 9007199254740992) = 7977805054199165 / 9007199254740992"
  by (rule dbl_at[where e="-1" and m=7977805054199165, THEN trans]) (simp_all add: power_int_minus)

lemma pval_31: "dbl (43114607843190981371325423763175 / 40564819207303340847894502572032) = 4786683032519499 / 4503599627370496"
  by (rule dbl_at[where e=0 and m=4786683032519499, THEN trans]) (simp_all add: power_int_minus)

lemma pval_32: "dbl (9271958675955049336661600587893 / 81129638414606681695789005144064) = 8235153604334621 / 72057594037927936"
  by (rule dbl_at[where e="-4" and m=8235153604334621, THEN trans]) (simp_all add: power_int_minus)

lemma pval_33: "dbl (65881228834676973 / 72057594037927936) = 4117576802167311 / 4503599627370496"
  by (rule dbl_at[where e="-1" and m=8235153604334622, THEN trans]) (simp_all add: power_int_minus)

lemma pval_34: "dbl (4117576802167311 / 4503599627370496) = 4117576802167311 / 4503599627370496"
  by (rule dbl_at[where e="-1" and m=8235153604334622, THEN trans]) (simp_all add: power_int_minus)

lemma pval_35: "dbl (22252700822292119591791172034045 / 20282409603651670423947251286016) = 4941092162600773 / 4503599627370496"
  by (rule dbl_at[where e=0 and m=4941092162600773, THEN trans]) (simp_all add: power_int_minus)

lemma pval_36: "dbl (23179896689887625143093852417931 / 162259276829213363391578010288128) = 5146971002709139 / 36028797018963968"
  by (rule dbl_at[where e="-3" and m=5146971002709139, THEN trans]) (simp_all add: power_int_minus)

lemma pval_37: "dbl (33970008617880315 / 36028797018963968) = 8492502154470079 / 9007199254740992"
  by (rule dbl_at[where e="-1" and m=8492502154470079, THEN trans]) (simp_all add: power_int_minus)

lemma pval_38: "dbl (8492502154470079 / 9007199254740992) = 8492502154470079 / 9007199254740992"
  by (rule dbl_at[where e="-1" and m=8492502154470079, THEN trans]) (simp_all add: power_int_minus)

lemma pval_39: "dbl (45896195445977496995839264373005 / 40564819207303340847894502572032) = 5095501292682047 / 4503599627370496"
  by (rule dbl_at[where e=0 and m=5095501292682047, THEN trans]) (simp_all add: power_int_minus)

lemma pval_40: "dbl (27815876027865148009984801763679 / 162259276829213363391578010288128) = 3088182601625483 / 18014398509481984"
  by (rule dbl_at[where e="-3" and m=6176365203250966, THEN trans]) (simp_all add: power_int_minus)

lemma pval_41: "dbl (17499701409211071 / 18014398509481984) = 273432834518923 / 281474976710656"
  by (rule dbl_at_tie[where e="-1" and f=8749850704605535, THEN trans]) (simp_all add: power_int_minus)

lemma pval_42: "dbl (273432834518923 / 281474976710656) = 273432834518923 / 281474976710656"
  by (rule dbl_at[where e="-1" and m=8749850704605536, THEN trans]) (simp_all add: power_int_minus)

lemma pval_43: "dbl (1477718413980336087753005771185 / 1267650600228229401496703205376) = 5249910422763321 / 4503599627370496"
  by (rule dbl_at[where e=0 and m=5249910422763321, THEN trans]) (simp_all add: power_int_minus)

lemma pval_44: "dbl (3602879701896397 / 18014398509481984) = 3602879701896397 / 18014398509481984"
  by (rule dbl_at[where e="-3" and m=7205759403792794, THEN trans]) (simp_all add: power_int_minus)

lemma pval_45: "dbl (18014398509481985 / 18014398509481984) = 1"
  by (rule dbl_at[where e=0 and m=4503599627370496, THEN trans]) (simp_all add: power_int_minus)

lemma pval_46: "dbl (5404319552844595 / 4503599627370496) = 5404319552844595 / 4503599627370496"
  by (rule dbl_at[where e=0 and m=5404319552844595, THEN trans]) (simp_all add: power_int_minus)

lemma pval_47: "dbl (23933415162597493 / 18014398509481984) = 5983353790649373 / 4503599627370496"
  by (rule dbl_at[where e=0 and m=5983353790649373, THEN trans]) (simp_all add: power_int_minus)

lemma pval_48: "dbl (5983353790649373 / 9007199254740992) = 5983353790649373 / 9007199254740992"
  by (rule dbl_at[where e="-1" and m=5983353790649373, THEN trans]) (simp_all add: power_int_minus)

lemmas pipeline_values = dbl_zero pval_1 pval_2 pval_3 pval_4 pval_5 pval_6 pval_7 pval_8 pval_9 pval_10 pval_11 pval_12 pval_13 pval_14 pval_15 pval_16 dbl_one pval_17 pval_18 pval_19 pval_20 pval_21 pval_22 pval_23 pval_24 pval_25 pval_26 pval_27 pval_28 pval_29 pval_30 pval_31 pval_32 pval_33 pval_34 pval_35 pval_36 pval_37 pval_38 pval_39 pval_40 pval_41 pval_42 pval_43 pval_44 pval_45 pval_46 pval_47 pval_48

text \<open>
  What \<open>calculateConfidence\<close> would return for the segments and the value of a frame
  with one region: the decoded character always normalizes to a number, so it is the
  boosted base value of the count, \<open>0.12\<close>, \<open>0.72\<close> or \<open>1\<close>. \<open>processImage\<close> reports \<open>0.9\<close> for
  a known character and \<open>count / 7\<close>, below 1, for an unknown one.
\<close>

lemma decoded_character: "segmentsToDigit s \<in> set (''?'' # map snd digitPatterns)"
  by (auto simp: segmentsToDigit_lookup split: option.splits dest!: map_of_SomeD
           intro: rev_image_eqI)

lemma decoded_parses: "\<not> parseFloat_isNaN (formatReadingValue (segmentsToDigit s))"
proof -
  have "\<forall>d \<in> set (''?'' # map snd digitPatterns). \<not> parseFloat_isNaN (formatReadingValue d)"
    by (simp add: digitPatterns_def formatReadingValue_def leadingDot_def trailingDot_def
        keptChar_def isDigit_def parseFloat_isNaN_def isAsciiSpace_def)
  then show ?thesis using decoded_character by blast
qed

lemma all_lit_known: "litCount_spec s = 7 \<Longrightarrow> segmentsToDigit s = ''8''"
  by (auto simp: litCount_spec_def segmentsToDigit_def segPattern_expand bitChar_def
      digitPatterns_def split: if_splits)

lemma activeSegments_litCount: "activeSegments s = litCount_spec s"
  by (simp add: activeSegments_def segValues_def litCount_spec_def)

lemma scorer_single:
  "calculateConfidence [s] (segmentsToDigit s) =
     min (jsMul (jsMean [baseConfidence_spec (litCount_spec s)]) (dbl (12 / 10))) 1"
  by (simp add: calculateConfidence_eq_spec confidence_spec_def decoded_parses
      activeSegments_litCount)

text \<open>The values below are stated in the simplifier's normal form.\<close>

lemma scorer_single_values:
  "min (jsMul (jsMean [baseConfidence_spec 0]) (dbl (6 / 5))) 1 = 1080863910568919 / 9007199254740992"
  "min (jsMul (jsMean [baseConfidence_spec (Suc 0)]) (dbl (6 / 5))) 1 = 3242591731706757 / 4503599627370496"
  "min (jsMul (jsMean [baseConfidence_spec 2]) (dbl (6 / 5))) 1 = 1"
  "min (jsMul (jsMean [baseConfidence_spec 3]) (dbl (6 / 5))) 1 = 1"
  "min (jsMul (jsMean [baseConfidence_spec 4]) (dbl (6 / 5))) 1 = 1"
  "min (jsMul (jsMean [baseConfidence_spec 5]) (dbl (6 / 5))) 1 = 1"
  "min (jsMul (jsMean [baseConfidence_spec 6]) (dbl (6 / 5))) 1 = 1"
  "min (jsMul (jsMean [baseConfidence_spec 7]) (dbl (6 / 5))) 1 = 1"
  by (simp_all add: baseConfidence_spec_def jsMean_def jsSum_def jsAdd_def jsMul_def jsDiv_def
      pipeline_values)

lemma region_single_values:
  "jsMean [dbl (9 / 10)] = 8106479329266893 / 9007199254740992"
  "jsMean [max (dbl (1 / 10)) (jsDiv 0 7)] = 3602879701896397 / 36028797018963968"
  "jsMean [max (dbl (1 / 10)) (jsDiv 1 7)] = 2573485501354569 / 18014398509481984"
  "jsMean [max (dbl (1 / 10)) (jsDiv 2 7)] = 2573485501354569 / 9007199254740992"
  "jsMean [max (dbl (1 / 10)) (jsDiv 3 7)] = 7720456504063707 / 18014398509481984"
  "jsMean [max (dbl (1 / 10)) (jsDiv 4 7)] = 2573485501354569 / 4503599627370496"
  "jsMean [max (dbl (1 / 10)) (jsDiv 5 7)] = 6433713753386423 / 9007199254740992"
  "jsMean [max (dbl (1 / 10)) (jsDiv 6 7)] = 7720456504063707 / 9007199254740992"
  by (simp_all add: jsMean_def jsSum_def jsAdd_def jsDiv_def pipeline_values)

lemma litCount_le: "litCount_spec s \<le> 7"
  by (simp add: litCount_spec_def)

lemma single_region_differs:
  "jsMean [regionScore_spec s] \<noteq> calculateConfidence [s] (segmentsToDigit s)"
proof -
  define n where "n = litCount_spec s"
  have "n \<le> 7" unfolding n_def by (rule litCount_le)
  then consider "n = 0" | "n = 1" | "n = 2" | "n = 3" | "n = 4" | "n = 5" | "n = 6" | "n = 7"
    by linarith
  then show ?thesis
  proof cases
    case 8
    then have "segmentsToDigit s = ''8''" unfolding n_def by (rule all_lit_known)
    then have k: "segmentsToDigit s \<noteq> ''?''" by simp
    show ?thesis
      using k 8
      by (simp add: scorer_single regionScore_spec_def n_def[symmetric]
          scorer_single_values region_single_values)
  qed (simp_all add: scorer_single regionScore_spec_def n_def[symmetric]
        scorer_single_values region_single_values)
qed

text \<open>
  The two example frames: what the detector and the extractor return on them, and the
  definitions a run of \<open>processImage\<close> goes through once the regions are analyzed.
\<close>

lemma detect_frame: "detectDisplay cvFrame (Some (whiteMat 40 20)) = [cell 0 20 40]"
  using detectDisplay_ready[of cvFrame "whiteMat 40 20" "[cell 0 20 40]"]
  by (simp add: cvFrame_def retained_spec_def cell_def)

lemma detect_two_digits:
  "detectDisplay cvTwoDigits (Some twoDigitMat) = [cell 0 20 40, cell 20 20 40]"
  using detectDisplay_ready[of cvTwoDigits twoDigitMat "[cell 20 20 40, cell 0 20 40]"]
  by (simp add: cvTwoDigits_def retained_spec_def cell_def)

lemma analyze_white_20_40:
  "analyzeSegments cvFrame (Some (whiteMat 40 20)) (Some (cell 0 20 40)) = allOn"
  by (simp add: analyzeSegments_run cvFrame_def whiteMat_def allOn_def geometry_values
      upt_conv_Cons)

lemma analyze_two_digits:
  "analyzeSegments cvTwoDigits (Some twoDigitMat) (Some (cell 0 20 40)) = allOn"
  "analyzeSegments cvTwoDigits (Some twoDigitMat) (Some (cell 20 20 40)) =
     \<lparr>seg_a = True, seg_b = False, seg_c = False, seg_d = True,
      seg_e = False, seg_f = False, seg_g = True\<rparr>"
  by (simp_all add: analyzeSegments_run cvTwoDigits_def twoDigitMat_def columnMat_def allOn_def
      geometry_values upt_conv_Cons)

lemmas processImage_run =
  processImage_def processImage_try_def analyzeRegion_def regionConfidence_def
  activeSegments_def segValues_def segmentsToDigit_def segPattern_def bitChar_def
  digitPatterns_def allOn_def jsAdd_def jsDiv_def Let_def

text \<open>
  Claim C5. In \<open>processImage\<close>, when at least one digit region is detected, the reported
  confidence is the arithmetic mean (in JavaScript arithmetic) over the detected regions
  of a score that is \<open>0.9\<close> when the decoded character of the region is not \<open>?\<close> and
  \<open>max(0.1, activeSegmentCount / 7)\<close> otherwise, the count being the number of lit
  segments; and the value string has exactly one character for each entry of the
  sequence of segments. \<open>calculateConfidence\<close> takes no part in the result: the
  confidence is that mean whatever the regions are, and on every frame with a single
  region it is not the number \<open>calculateConfidence\<close> returns for the segments and the
  value of the result.
\<close>

theorem processImage_confidence:
  "(isReady cv \<and> imageData = Some frame \<and> preprocessImage cv frame threshold = Some bin \<and>
    detectDisplay cv (Some bin) = regions \<and> regions \<noteq> [] \<longrightarrow>
      dr_segments (processImage cv imageData threshold)
        = map (\<lambda>r. analyzeSegments cv (Some bin) (Some r)) regions \<and>
      dr_value (processImage cv imageData threshold)
        = concat (map segmentsToDigit (dr_segments (processImage cv imageData threshold))) \<and>
      dr_confidence (processImage cv imageData threshold)
        = jsMean (map regionScore_spec (dr_segments (processImage cv imageData threshold))) \<and>
      (length regions = 1 \<longrightarrow>
         dr_confidence (processImage cv imageData threshold)
           \<noteq> calculateConfidence (dr_segments (processImage cv imageData threshold))
                                   (dr_value (processImage cv imageData threshold)))) \<and>
   length (dr_value (processImage cv imageData threshold))
     = length (dr_segments (processImage cv imageData threshold))"
proof -
  have score: "regionConfidence s (segmentsToDigit s) = regionScore_spec s" for s
    by (simp add: regionConfidence_def regionScore_spec_def activeSegments_def segValues_def
        litCount_spec_def)
  have turns: "fold (analyzeRegion cv b) rs (ds, ss, t) =
     (ds @ map (\<lambda>r. segmentsToDigit (analyzeSegments cv (Some b) (Some r))) rs,
      ss @ map (\<lambda>r. analyzeSegments cv (Some b) (Some r)) rs,
      foldl jsAdd t (map (\<lambda>r. regionScore_spec (analyzeSegments cv (Some b) (Some r))) rs))"
    for b rs ds ss t
    by (induction rs arbitrary: ds ss t) (simp_all add: analyzeRegion_def score Let_def)
  have regs: "processImage cv imageData threshold =
     \<lparr>dr_value = concat (map (\<lambda>r. segmentsToDigit (analyzeSegments cv (Some b) (Some r))) rs),
      dr_confidence = jsMean (map (\<lambda>r. regionScore_spec (analyzeSegments cv (Some b) (Some r))) rs),
      dr_segments = map (\<lambda>r. analyzeSegments cv (Some b) (Some r)) rs\<rparr>"
    if "isReady cv" "imageData = Some fr" "preprocessImage cv fr threshold = Some b"
      "detectDisplay cv (Some b) = rs" "rs \<noteq> []" for fr b rs
    using that
    by (simp add: processImage_def processImage_try_def turns js_join_Nil jsMean_def jsSum_def
        Let_def)
  have len: "length (dr_value (processImage cv imageData threshold))
     = length (dr_segments (processImage cv imageData threshold))"
  proof (cases "isReady cv")
    case False
    then show ?thesis by (simp add: processImage_def emptyResult_def)
  next
    case True
    show ?thesis
    proof (cases imageData)
      case None
      with True show ?thesis by (simp add: processImage_def processImage_try_def emptyResult_def)
    next
      case (Some fr)
      show ?thesis
      proof (cases "preprocessImage cv fr threshold")
        case None
        with True Some show ?thesis
          by (simp add: processImage_def processImage_try_def emptyResult_def)
      next
        case b: (Some b)
        show ?thesis
        proof (cases "detectDisplay cv (Some b) = []")
          case True
          with \<open>isReady cv\<close> Some b show ?thesis
            by (simp add: processImage_def processImage_try_def emptyResult_def)
        next
          case False
          from regs[OF \<open>isReady cv\<close> Some b refl False]
          show ?thesis by (simp add: length_concat_digits)
        qed
      qed
    qed
  qed
  show ?thesis
  proof (intro conjI impI)
    assume a: "isReady cv \<and> imageData = Some frame \<and>
      preprocessImage cv frame threshold = Some bin \<and>
      detectDisplay cv (Some bin) = regions \<and> regions \<noteq> []"
    then have p: "processImage cv imageData threshold =
       \<lparr>dr_value = concat (map (\<lambda>r. segmentsToDigit (analyzeSegments cv (Some bin) (Some r))) regions),
        dr_confidence = jsMean (map (\<lambda>r. regionScore_spec (analyzeSegments cv (Some bin) (Some r))) regions),
        dr_segments = map (\<lambda>r. analyzeSegments cv (Some bin) (Some r)) regions\<rparr>"
      using regs[of frame bin regions] by blast
    show "dr_segments (processImage cv imageData threshold)
          = map (\<lambda>r. analyzeSegments cv (Some bin) (Some r)) regions"
      by (simp add: p)
    show "dr_value (processImage cv imageData threshold)
          = concat (map segmentsToDigit (dr_segments (processImage cv imageData threshold)))"
      by (simp add: p comp_def)
    show "dr_confidence (processImage cv imageData threshold)
          = jsMean (map regionScore_spec (dr_segments (processImage cv imageData threshold)))"
      by (simp add: p comp_def)
    assume "length regions = 1"
    then obtain r where r: "regions = [r]" by (cases regions) auto
    show "dr_confidence (processImage cv imageData threshold)
             \<noteq> calculateConfidence (dr_segments (processImage cv imageData threshold))
                                     (dr_value (processImage cv imageData threshold))"
      using single_region_differs[of "analyzeSegments cv (Some bin) (Some r)"]
      by (simp add: p r)
  next
    show "length (dr_value (processImage cv imageData threshold))
       = length (dr_segments (processImage cv imageData threshold))"
      by (rule len)
  qed
qed

text \<open>
  \<open>processImage\<close> run on the frame of two digits, an \<open>8\<close> and an unknown pattern of three
  lit segments, and on the frame of one \<open>8\<close>; the mean of the scores of the claim on the
  first, and the scorer on the second.
\<close>

theorem processImage_confidence_witness:
  "processImage cvTwoDigits (Some ()) 128 =
     \<lparr>dr_value = ''8?'', dr_confidence = 5983353790649373 / 9007199254740992,
      dr_segments = [allOn, \<lparr>seg_a = True, seg_b = False, seg_c = False, seg_d = True,
                             seg_e = False, seg_f = False, seg_g = True\<rparr>]\<rparr> \<and>
   jsMean (map regionScore_spec
     [allOn, \<lparr>seg_a = True, seg_b = False, seg_c = False, seg_d = True,
              seg_e = False, seg_f = False, seg_g = True\<rparr>])
     = 5983353790649373 / 9007199254740992 \<and>
   processImage cvFrame (Some ()) 128 =
     \<lparr>dr_value = ''8'', dr_confidence = 8106479329266893 / 9007199254740992,
      dr_segments = [allOn]\<rparr> \<and>
   calculateConfidence [allOn] ''8'' = 1 \<and>
   dr_confidence (processImage cvFrame (Some ()) 128) \<noteq> calculateConfidence [allOn] ''8''"
proof -
  have rdy2: "isReady cvTwoDigits" by (simp add: cvTwoDigits_def)
  have pre2: "preprocessImage cvTwoDigits () 128 = Some twoDigitMat"
    by (simp add: preprocessImage_def cvTwoDigits_def)
  have two: "processImage cvTwoDigits (Some ()) 128 =
     \<lparr>dr_value = ''8?'', dr_confidence = 5983353790649373 / 9007199254740992,
      dr_segments = [allOn, \<lparr>seg_a = True, seg_b = False, seg_c = False, seg_d = True,
                             seg_e = False, seg_f = False, seg_g = True\<rparr>]\<rparr>"
    by (simp add: processImage_run rdy2 pre2 detect_two_digits analyze_two_digits
        pipeline_values)
  have "isReady cvTwoDigits \<and> Some () = Some () \<and>
        preprocessImage cvTwoDigits () 128 = Some twoDigitMat \<and>
        detectDisplay cvTwoDigits (Some twoDigitMat) = [cell 0 20 40, cell 20 20 40] \<and>
        [cell 0 20 40, cell 20 20 40] \<noteq> []"
    using rdy2 pre2 detect_two_digits by simp
  with processImage_confidence [of cvTwoDigits "Some ()" "()" 128 twoDigitMat
      "[cell 0 20 40, cell 20 20 40]"]
  have "dr_confidence (processImage cvTwoDigits (Some ()) 128) =
          jsMean (map regionScore_spec (dr_segments (processImage cvTwoDigits (Some ()) 128)))"
    by blast
  then have mean: "jsMean (map regionScore_spec
     [allOn, \<lparr>seg_a = True, seg_b = False, seg_c = False, seg_d = True,
              seg_e = False, seg_f = False, seg_g = True\<rparr>])
     = 5983353790649373 / 9007199254740992"
    unfolding two by simp
  have rdy: "isReady cvFrame" by (simp add: cvFrame_def)
  have pre: "preprocessImage cvFrame () 128 = Some (whiteMat 40 20)"
    by (simp add: preprocessImage_def cvFrame_def)
  have one: "processImage cvFrame (Some ()) 128 =
     \<lparr>dr_value = ''8'', dr_confidence = 8106479329266893 / 9007199254740992,
      dr_segments = [allOn]\<rparr>"
    by (simp add: processImage_run rdy pre detect_frame analyze_white_20_40 pipeline_values)
  have scorer: "calculateConfidence [allOn] ''8'' = 1"
    by (simp add: calculateConfidence_def digitConfidence_def activeSegments_def segValues_def
        allOn_def formatReadingValue_def leadingDot_def trailingDot_def keptChar_def isDigit_def
        parseFloat_isNaN_def isAsciiSpace_def jsAdd_def jsMul_def jsDiv_def pipeline_values)
  have "isReady cvFrame \<and> Some () = Some () \<and>
        preprocessImage cvFrame () 128 = Some (whiteMat 40 20) \<and>
        detectDisplay cvFrame (Some (whiteMat 40 20)) = [cell 0 20 40] \<and> [cell 0 20 40] \<noteq> []"
    using rdy pre detect_frame by simp
  moreover have "length [cell 0 20 40] = 1" by simp
  ultimately have "dr_confidence (processImage cvFrame (Some ()) 128)
           \<noteq> calculateConfidence (dr_segments (processImage cvFrame (Some ()) 128))
                                   (dr_value (processImage cvFrame (Some ()) 128))"
    using processImage_confidence [of cvFrame "Some ()" "()" 128 "whiteMat 40 20" "[cell 0 20 40]"]
    by blast
  then have "dr_confidence (processImage cvFrame (Some ()) 128) \<noteq> calculateConfidence [allOn] ''8''"
    by (simp add: one)
  with two mean one scorer show ?thesis by blast
qed

text \<open>
  Claim C10. The pipeline never throws: \<open>processImage\<close> answers an exception of its \<open>try\<close>
  block with the empty result, and for every frame on which preprocessing fails (or the
  hook is not ready, or the frame is \<open>null\<close>) or on which no digit region is detected it
  returns \<open>{ value: "", confidence: 0, segments: [] }\<close>.
\<close>

theorem processImage_never_throws:
  "(\<not> isReady cv \<longrightarrow> processImage cv imageData threshold = emptyResult) \<and>
   (processImage_try cv imageData threshold = Inl e \<longrightarrow>
      processImage cv imageData threshold = emptyResult) \<and>
   (imageData = None \<longrightarrow> processImage cv imageData threshold = emptyResult) \<and>
   (imageData = Some frame \<and> preprocessImage cv frame threshold = None \<longrightarrow>
      processImage cv imageData threshold = emptyResult) \<and>
   (imageData = Some frame \<and> detectDisplay cv (preprocessImage cv frame threshold) = [] \<longrightarrow>
      processImage cv imageData threshold = emptyResult) \<and>
   emptyResult = \<lparr>dr_value = [], dr_confidence = 0, dr_segments = []\<rparr>"
proof (intro conjI impI)
  show "emptyResult = \<lparr>dr_value = [], dr_confidence = 0, dr_segments = []\<rparr>"
    by (rule emptyResult_def)
next
  assume "processImage_try cv imageData threshold = Inl e"
  then show "processImage cv imageData threshold = emptyResult"
    by (simp add: processImage_def)
next
  assume "imageData = Some frame \<and> preprocessImage cv frame threshold = None"
  then show "processImage cv imageData threshold = emptyResult"
    by (simp add: processImage_def processImage_try_def)
qed (simp_all add: processImage_empty)

theorem processImage_never_throws_witness:
  "processImage cvReady (Some ()) 128 = emptyResult \<and>
   processImage cvFrame None 128 = emptyResult"
proof -
  have "preprocessImage cvReady () 128 = None"
    by (simp add: preprocessImage_def cvReady_def)
  then have "processImage cvReady (Some ()) 128 = emptyResult"
    using processImage_never_throws [of cvReady "Some ()" 128 _ "()"] by simp
  moreover have "processImage cvFrame None 128 = emptyResult"
    using processImage_never_throws [of cvFrame None 128] by simp
  ultimately show ?thesis by simp
qed

section \<open>The CSV codec\<close>

lemma js_split_step:
  "js_split sep (c # cs) =
     (case js_split sep cs of
        [] \<Rightarrow> []
      | p # ps \<Rightarrow> if c = sep then [] # p # ps else (c # p) # ps)"
  using js_split_nonempty[of sep cs] by (cases "js_split sep cs") auto

lemma js_split_plain: "sep \<notin> set a \<Longrightarrow> js_split sep a = [a]"
  by (induction a) auto

lemma js_split_append: "sep \<notin> set a \<Longrightarrow> js_split sep (a @ sep # b) = a # js_split sep b"
  by (induction a) auto

lemma js_split_join:
  "ls \<noteq> [] \<Longrightarrow> \<forall>r\<in>set ls. sep \<notin> set r \<Longrightarrow> js_split sep (js_join [sep] ls) = ls"
proof (induction "[sep]" ls rule: js_join.induct)
  case 1
  then show ?case by simp
next
  case (2 p)
  then show ?case by (simp add: js_split_plain)
next
  case (3 p q ps)
  then show ?case by (simp add: js_split_append)
qed

lemma js_trim_id: "trimmed s \<Longrightarrow> js_trim s = s"
proof (cases s)
  case Nil
  then show ?thesis by (simp add: js_trim_def)
next
  case (Cons c cs)
  assume "trimmed s"
  with Cons have h: "\<not> isWhiteSpace c" and l: "\<not> isWhiteSpace (last s)"
    by (auto simp: trimmed_def)
  have "dropWhile isWhiteSpace s = s" using Cons h by simp
  moreover have "dropWhile isWhiteSpace (rev s) = rev s"
    using Cons l by (simp only: dropWhile_eq_self_iff hd_rev) simp
  ultimately show ?thesis by (simp add: js_trim_def)
qed

lemma loop_plain:
  "34 \<notin> set f \<Longrightarrow> 44 \<notin> set f \<Longrightarrow>
   parseCSVLine_loop (f @ rest) res cur False = parseCSVLine_loop rest res (cur @ f) False"
  by (induction f arbitrary: cur) auto

lemma loop_quoted:
  "rest = [] \<or> hd rest \<noteq> 34 \<Longrightarrow>
   parseCSVLine_loop (quoteBody f @ 34 # rest) res cur True = parseCSVLine_loop rest res (cur @ f) False"
proof (induction f arbitrary: cur)
  case Nil
  then show ?case by (cases rest) (auto simp: quoteBody_def)
next
  case (Cons c f)
  show ?case
  proof (cases "c = 34")
    case True
    have "quoteBody (c # f) = 34 # 34 # quoteBody f" using True by (simp add: quoteBody_def)
    then show ?thesis using Cons.IH[OF Cons.prems, of "cur @ [34]"] True by simp
  next
    case False
    have "quoteBody (c # f) = c # quoteBody f" using False by (simp add: quoteBody_def)
    then show ?thesis using Cons.IH[OF Cons.prems, of "cur @ [c]"] False by simp
  qed
qed

lemma loop_escaped:
  assumes "rest = [] \<or> hd rest \<noteq> 34"
  shows "parseCSVLine_loop (escapeCsvField f @ rest) res cur False
           = parseCSVLine_loop rest res (cur @ f) False"
proof (cases "44 \<in> set f \<or> 34 \<in> set f \<or> 10 \<in> set f")
  case False
  then show ?thesis by (simp add: escapeCsvField_def loop_plain)
next
  case True
  then have e: "escapeCsvField f @ rest = 34 # (quoteBody f @ 34 # rest)"
    by (simp add: escapeCsvField_def quoteBody_def)
  obtain x xs where x: "quoteBody f @ 34 # rest = x # xs" by (cases "quoteBody f @ 34 # rest") auto
  have "parseCSVLine_loop (34 # (quoteBody f @ 34 # rest)) res cur False
          = parseCSVLine_loop (quoteBody f @ 34 # rest) res cur True"
    unfolding x by simp
  then show ?thesis unfolding e using loop_quoted[OF assms] by simp
qed

lemma loop_comma:
  "parseCSVLine_loop (44 # rest) res cur False = parseCSVLine_loop rest (res @ [js_trim cur]) [] False"
  by simp

lemma parse_row:
  assumes "plainField a" "plainField b" "quotableField q" "quotableField u" "plainField m" "plainField c"
  shows "parseCSVLine (a @ [44] @ b @ [44] @ escapeCsvField q @ [44] @ escapeCsvField u @ [44] @ m @ [44] @ c)
           = [a, b, q, u, m, c]"
proof -
  have pa: "34 \<notin> set a" "44 \<notin> set a" and pb: "34 \<notin> set b" "44 \<notin> set b"
    and pm: "34 \<notin> set m" "44 \<notin> set m" and pc: "34 \<notin> set c" "44 \<notin> set c"
    using assms by (auto simp: plainField_def)
  have t: "js_trim a = a" "js_trim b = b" "js_trim q = q" "js_trim u = u" "js_trim m = m" "js_trim c = c"
    using assms by (auto simp: plainField_def quotableField_def intro: js_trim_id)
  let ?r4 = "m @ 44 # c"
  let ?r3 = "escapeCsvField u @ 44 # ?r4"
  let ?r2 = "escapeCsvField q @ 44 # ?r3"
  let ?r1 = "b @ 44 # ?r2"
  have "parseCSVLine_loop (a @ 44 # ?r1) [] [] False = parseCSVLine_loop (44 # ?r1) [] ([] @ a) False"
    by (rule loop_plain[OF pa])
  also have "\<dots> = parseCSVLine_loop ?r1 [a] [] False"
    by (simp only: loop_comma append_Nil t)
  also have "\<dots> = parseCSVLine_loop (44 # ?r2) [a] ([] @ b) False"
    by (rule loop_plain[OF pb])
  also have "\<dots> = parseCSVLine_loop ?r2 [a, b] [] False"
    by (simp only: loop_comma append_Nil t append_Cons)
  also have "\<dots> = parseCSVLine_loop (44 # ?r3) [a, b] ([] @ q) False"
    by (rule loop_escaped) simp
  also have "\<dots> = parseCSVLine_loop ?r3 [a, b, q] [] False"
    by (simp only: loop_comma append_Nil t append_Cons)
  also have "\<dots> = parseCSVLine_loop (44 # ?r4) [a, b, q] ([] @ u) False"
    by (rule loop_escaped) simp
  also have "\<dots> = parseCSVLine_loop ?r4 [a, b, q, u] [] False"
    by (simp only: loop_comma append_Nil t append_Cons)
  also have "\<dots> = parseCSVLine_loop (44 # c) [a, b, q, u] ([] @ m) False"
    by (rule loop_plain[OF pm])
  also have "\<dots> = parseCSVLine_loop (c @ []) [a, b, q, u, m] [] False"
    by (simp only: loop_comma append_Nil t append_Cons append_Nil2)
  also have "\<dots> = parseCSVLine_loop [] [a, b, q, u, m] ([] @ c) False"
    by (rule loop_plain[OF pc])
  also have "\<dots> = [a, b, q, u, m, c]"
    by (simp add: t)
  finally show ?thesis by (simp add: parseCSVLine_def)
qed


lemma plain_mode: "plainField (js ''manual'')" "plainField (js ''auto'')" "plainField (js ''0'')"
  by (simp_all add: plainField_def trimmed_def js_def isWhiteSpace_def)

lemma wf_parts:
  assumes "wellFormed rt r"
  shows "\<exists>t. r_timestamp r = Some t \<and> plainField (toISOString rt t) \<and> dateParse rt (toISOString rt t) = Some t"
    and "plainField (r_value r)" and "quotableField (r_quantity r)" and "quotableField (r_unit r)"
    and "plainField (r_mode r)" and "plainField (csvConfidence r)"
  using assms plain_mode
  by (auto simp: wellFormed_def csvConfidence_def split: option.splits)

lemma csvRow_wf: "wellFormed rt r \<Longrightarrow> csvRow rt r = Inr (rowOf rt r)"
  by (auto simp: wellFormed_def csvRow_def rowOf_def csvConfidence_def js_def Let_def split: option.splits)

lemma mapThrowing_wf:
  "\<forall>r\<in>set rs. wellFormed rt r \<Longrightarrow> mapThrowing (csvRow rt) rs = Inr (map (rowOf rt) rs)"
  by (induction rs) (simp_all add: csvRow_wf)

lemma csvHeader_eval: "js_join (js '','') headerList = headerLine"
  by (simp add: js_def headerList_def headerLine_def)

lemma generateCSV_wf:
  assumes "rs \<noteq> []" "\<forall>r\<in>set rs. wellFormed rt r"
  shows "generateCSV rt rs = Inr (headerLine @ 10 # js_join [10] (map (rowOf rt) rs))"
proof -
  have h: "js_join (js '','') [js ''timestamp'', js ''value'', js ''quantity'', js ''unit'',
             js ''mode'', js ''confidence''] = headerLine"
    using csvHeader_eval by (simp only: headerList_def)
  show ?thesis
    unfolding generateCSV_def Let_def h mapThrowing_wf[OF assms(2)]
    using assms(1) by simp
qed

lemma set_escape: "set (escapeCsvField f) \<subseteq> set f \<union> {34}"
  by (auto simp: escapeCsvField_def split: if_splits)

lemma row_no_lf:
  assumes "wellFormed rt r"
  shows "10 \<notin> set (rowOf rt r)"
proof -
  from wf_parts[OF assms] obtain t where t: "r_timestamp r = Some t" "plainField (toISOString rt t)"
    by blast
  have "10 \<notin> set (escapeCsvField (r_quantity r))" "10 \<notin> set (escapeCsvField (r_unit r))"
    using wf_parts(3,4)[OF assms] set_escape[of "r_quantity r"] set_escape[of "r_unit r"]
    by (auto simp: quotableField_def)
  then show ?thesis
    using t wf_parts(2,5,6)[OF assms] by (simp add: rowOf_def plainField_def)
qed

lemma row_last:
  assumes "wellFormed rt r"
  shows "rowOf rt r \<noteq> []" "\<not> isWhiteSpace (last (rowOf rt r))"
proof -
  have c: "csvConfidence r \<noteq> []" "\<not> isWhiteSpace (last (csvConfidence r))"
    using wf_parts(6)[OF assms] by (auto simp: plainField_def trimmed_def)
  show "rowOf rt r \<noteq> []" by (simp add: rowOf_def)
  show "\<not> isWhiteSpace (last (rowOf rt r))" using c by (simp add: rowOf_def)
qed

lemma last_js_join:
  "ls \<noteq> [] \<Longrightarrow> last ls \<noteq> [] \<Longrightarrow> js_join sep ls \<noteq> [] \<and> last (js_join sep ls) = last (last ls)"
  by (induction sep ls rule: js_join.induct) auto

lemma content_trimmed:
  assumes "rs \<noteq> []" "\<forall>r\<in>set rs. wellFormed rt r"
  shows "js_trim (headerLine @ 10 # js_join [10] (map (rowOf rt) rs))
           = headerLine @ 10 # js_join [10] (map (rowOf rt) rs)"
proof (rule js_trim_id)
  let ?ls = "map (rowOf rt) rs"
  have ne: "?ls \<noteq> []" using assms(1) by simp
  have lr: "last ?ls = rowOf rt (last rs)" using assms(1) by (simp add: last_map)
  have wl: "wellFormed rt (last rs)" using assms by simp
  from last_js_join[OF ne, of "[10]"] row_last[OF wl] lr
  have j: "js_join [10] ?ls \<noteq> []" "\<not> isWhiteSpace (last (js_join [10] ?ls))" by auto
  have "hd (headerLine @ 10 # js_join [10] ?ls) = 116" by (simp add: headerLine_def js_def)
  moreover have "\<not> isWhiteSpace 116" by (simp add: isWhiteSpace_def)
  moreover have "last (headerLine @ 10 # js_join [10] ?ls) = last (js_join [10] ?ls)" using j by simp
  ultimately show "trimmed (headerLine @ 10 # js_join [10] ?ls)"
    using j by (simp add: trimmed_def)
qed

lemma header_no_lf: "10 \<notin> set headerLine"
  by (simp add: headerLine_def js_def)

lemma lines_of_content:
  assumes "rs \<noteq> []" "\<forall>r\<in>set rs. wellFormed rt r"
  shows "js_split 10 (headerLine @ 10 # js_join [10] (map (rowOf rt) rs)) = headerLine # map (rowOf rt) rs"
proof -
  have "js_split 10 (js_join [10] (map (rowOf rt) rs)) = map (rowOf rt) rs"
    using assms by (intro js_split_join) (auto simp: row_no_lf)
  then show ?thesis by (simp add: js_split_append[OF header_no_lf])
qed

lemma header_names_eval:
  "map (\<lambda>h. toLowerCase (js_trim h)) (js_split 44 headerLine) = headerList"
  by (simp add: headerLine_def headerList_def js_def toLowerCase_def js_trim_def isWhiteSpace_def
      lowerUnit_def js_split_step del: js_split.simps(2))

lemma missing_none: "filter (\<lambda>h. h \<notin> set headerList) requiredHeaders = []"
  by (simp add: headerList_def requiredHeaders_def js_def)

lemma valueAt_header:
  "valueAt headerList [a, b, q, u, m, c] (js ''timestamp'') = Some a"
  "valueAt headerList [a, b, q, u, m, c] (js ''value'') = Some b"
  "valueAt headerList [a, b, q, u, m, c] (js ''quantity'') = Some q"
  "valueAt headerList [a, b, q, u, m, c] (js ''unit'') = Some u"
  "valueAt headerList [a, b, q, u, m, c] (js ''mode'') = Some m"
  "valueAt headerList [a, b, q, u, m, c] (js ''confidence'') = Some c"
  by (simp_all add: valueAt_def headerList_def js_def)

lemma parseRow_wf:
  assumes "wellFormed rt r"
  shows "\<exists>d. parseRow rt headerList i (rowOf rt r) = Some d \<and> sameFields d r"
proof -
  from wf_parts(1)[OF assms] obtain t where t: "r_timestamp r = Some t"
      "plainField (toISOString rt t)" "dateParse rt (toISOString rt t) = Some t" by blast
  note w = wf_parts(2-6)[OF assms]
  have v: "parseCSVLine (rowOf rt r) =
      [toISOString rt t, r_value r, r_quantity r, r_unit r, r_mode r, csvConfidence r]"
    unfolding rowOf_def t(1) option.case by (rule parse_row[OF t(2) w])
  have ne: "r_value r \<noteq> []" "r_quantity r \<noteq> []" "r_unit r \<noteq> []" "r_mode r \<noteq> []"
    using w by (auto simp: plainField_def quotableField_def)
  have len: "length headerList = 6" by (simp add: headerList_def)
  show ?thesis
    by (simp add: parseRow_def v valueAt_header len t ne sameFields_def Let_def)
qed

lemma parseRows_wf:
  "\<forall>r\<in>set rs. wellFormed rt r \<Longrightarrow>
     list_all2 sameFields (parseRows rt headerList i (map (rowOf rt) rs)) rs"
proof (induction rs arbitrary: i)
  case Nil
  then show ?case by simp
next
  case (Cons r rs)
  then obtain d where "parseRow rt headerList i (rowOf rt r) = Some d" "sameFields d r"
    using parseRow_wf[of rt r i] by auto
  with Cons show ?case by simp
qed

lemma generate_parse_roundtrip:
  assumes "rs \<noteq> []" "\<forall>r\<in>set rs. wellFormed rt r"
  shows "\<exists>csv decoded. generateCSV rt rs = Inr csv \<and> parseCSV rt csv = Inr decoded \<and>
           list_all2 sameFields decoded rs"
proof -
  let ?csv = "headerLine @ 10 # js_join [10] (map (rowOf rt) rs)"
  have g: "generateCSV rt rs = Inr ?csv" by (rule generateCSV_wf[OF assms])
  have l: "js_split 10 (js_trim ?csv) = headerLine # map (rowOf rt) rs"
    unfolding content_trimmed[OF assms] by (rule lines_of_content[OF assms])
  have "parseCSV rt ?csv = Inr (parseRows rt headerList 1 (map (rowOf rt) rs))"
    using assms(1) by (simp add: parseCSV_def l header_names_eval missing_none Let_def)
  with g parseRows_wf[OF assms(2), of 1] show ?thesis by blast
qed










text \<open>
  Claim C1, as the code has it. For every non-empty sequence of well-formed readings
  the encoder succeeds, the decoder accepts its output, and the decoded sequence has the
  same number of rows, each with the \<open>value\<close>, \<open>quantity\<close>, \<open>unit\<close> and \<open>mode\<close> (and the
  timestamp) of the reading it comes from. The encoding of the empty sequence is the
  header line alone, which the decoder rejects.
\<close>

theorem csv_roundtrip_nonempty:
  "(rs \<noteq> [] \<and> (\<forall>r\<in>set rs. wellFormed rt r) \<longrightarrow>
      (\<exists>csv decoded. generateCSV rt rs = Inr csv \<and> parseCSV rt csv = Inr decoded \<and>
         length decoded = length rs \<and> list_all2 sameFields decoded rs)) \<and>
   generateCSV rt [] = Inr (headerLine @ [10])"
proof (intro conjI impI)
  assume a: "rs \<noteq> [] \<and> (\<forall>r\<in>set rs. wellFormed rt r)"
  then obtain csv decoded where r: "generateCSV rt rs = Inr csv"
      "parseCSV rt csv = Inr decoded" "list_all2 sameFields decoded rs"
    using generate_parse_roundtrip[of rs rt] by blast
  from r(3) have "length decoded = length rs" by (rule list_all2_lengthD)
  with r show "\<exists>csv decoded. generateCSV rt rs = Inr csv \<and> parseCSV rt csv = Inr decoded \<and>
         length decoded = length rs \<and> list_all2 sameFields decoded rs"
    by blast
next
  show "generateCSV rt [] = Inr (headerLine @ [10])"
    by (simp add: generateCSV_def headerLine_def)
qed

lemma sampleReading_wf: "wellFormed rtEpoch sampleReading"
  by (simp add: wellFormed_def sampleReading_def rtEpoch_def plainField_def quotableField_def
      trimmed_def js_def isWhiteSpace_def)

theorem csv_roundtrip_nonempty_witness:
  "\<exists>csv d. generateCSV rtEpoch [sampleReading] = Inr csv \<and> parseCSV rtEpoch csv = Inr [d] \<and>
     r_value d = js ''1.5'' \<and> r_quantity d = js ''voltage'' \<and> r_unit d = [109, 86, 44, 34] \<and>
     r_mode d = js ''auto''"
proof -
  from csv_roundtrip_nonempty [of "[sampleReading]" rtEpoch] sampleReading_wf
  obtain csv decoded where r: "generateCSV rtEpoch [sampleReading] = Inr csv"
      "parseCSV rtEpoch csv = Inr decoded" "list_all2 sameFields decoded [sampleReading]"
    by auto
  from r(3) obtain d where d: "decoded = [d]" "sameFields d sampleReading"
    by (auto simp: list_all2_Cons2)
  from d(2) have "r_value d = js ''1.5'' \<and> r_quantity d = js ''voltage'' \<and>
      r_unit d = [109, 86, 44, 34] \<and> r_mode d = js ''auto''"
    by (simp add: sameFields_def sampleReading_def)
  with r d(1) show ?thesis by blast
qed

text \<open>The encoding of the empty sequence does not decode: the claim as stated fails on it.\<close>

theorem csv_roundtrip_empty_counterexample:
  "generateCSV rtEpoch [] = Inr (js ''timestamp,value,quantity,unit,mode,confidence'' @ [10]) \<and>
   parseCSV rtEpoch (js ''timestamp,value,quantity,unit,mode,confidence'' @ [10]) =
     Inl (Error (js ''CSV file must contain at least a header and one data row''))"
  by (simp add: generateCSV_def parseCSV_def Let_def js_def js_trim_def isWhiteSpace_def
      js_split_step del: js_split.simps(2))

end
